theory Spec2Isabelle
  imports Complex_Main "HOL-Library.Signed_Division"
begin

section \<open>Dynamic memory\<close>

text \<open>
  The program builds its lists from nodes obtained with \<^verbatim>\<open>new\<close> and returned with
  \<^verbatim>\<open>delete\<close>. A store is a growing array of cells: an address is an index, \<^verbatim>\<open>new\<close>
  takes the next index (so a fresh address never aliases a live or a freed one), \<^verbatim>\<open>delete\<close>
  empties the cell. Reading an address that holds no live object is undefined behaviour in
  C++; here it is the value \<open>None\<close>, and every operation that meets it returns \<open>None\<close>.
\<close>

type_synonym dir = nat

type_synonym 'c almacen = "'c option list"

definition leer :: "'c almacen \<Rightarrow> dir \<Rightarrow> 'c option" where
  "leer h a = (if a < length h then h ! a else None)"

definition reservar :: "'c \<Rightarrow> 'c almacen \<Rightarrow> dir \<times> 'c almacen" where
  "reservar c h = (length h, h @ [Some c])"

definition escribir :: "dir \<Rightarrow> 'c \<Rightarrow> 'c almacen \<Rightarrow> 'c almacen" where
  "escribir a c h = h[a := Some c]"

definition liberar :: "dir \<Rightarrow> 'c almacen \<Rightarrow> 'c almacen" where
  "liberar a h = h[a := None]"

section \<open>ListaSensor.h: the generic singly linked list\<close>

text \<open>\<^verbatim>\<open>struct Nodo\<close>: a value and the pointer to the next node (\<open>None\<close> is \<^verbatim>\<open>nullptr\<close>).\<close>

record 'a Nodo =
  dato :: 'a
  siguiente :: "dir option"

text \<open>\<^verbatim>\<open>class ListaSensor\<close>: the head pointer and the element counter \<^verbatim>\<open>tamano\<close> (the source writes it with n-tilde).\<close>

record ListaSensor =
  cabeza :: "dir option"
  tamano :: int

text \<open>The memory a list lives in: the nodes, and the list objects themselves (a list is
  addressed by \<^verbatim>\<open>this\<close>, which \<^verbatim>\<open>operator=\<close> compares with the address of its argument).\<close>

record 'a memoria =
  nodos :: "'a Nodo almacen"
  listas :: "ListaSensor almacen"

text \<open>One constructor for each line the class writes to \<^verbatim>\<open>std::cout\<close>.\<close>

datatype 'a msg =
    ListaCreada
  | PrimerNodoInsertado 'a
  | NodoInsertadoAlFinal 'a
  | ListaVaciaRetornando0
  | NoHayElementos
  | ValorMinimoEliminado 'a
  | ListaVaciaAviso
  | Lista "'a list"

text \<open>The template parameter \<^verbatim>\<open>T\<close> supplies \<^verbatim>\<open>+=\<close> and the division of a \<^verbatim>\<open>T\<close> by the
  \<^verbatim>\<open>int\<close> counter; \<^verbatim>\<open><\<close> and \<^verbatim>\<open>static_cast<T>(0)\<close> are those of the element type.
  A division the language leaves undefined is \<open>None\<close>.\<close>

record 'a aritmetica =
  sumar :: "'a \<Rightarrow> 'a \<Rightarrow> 'a"
  dividir :: "'a \<Rightarrow> int \<Rightarrow> 'a option"

text \<open>Default constructor: an empty list object.\<close>

definition ListaSensor_ctor :: "'a memoria \<Rightarrow> dir \<times> 'a memoria \<times> 'a msg list" where
  "ListaSensor_ctor s =
     (let (this, ls) = reservar \<lparr>cabeza = None, tamano = 0\<rparr> (listas s)
      in (this, s\<lparr>listas := ls\<rparr>, [ListaCreada]))"

text \<open>The walk of \<^verbatim>\<open>insertarAlFinal\<close> to the last node:
  \<^verbatim>\<open>while (actual->siguiente != nullptr) actual = actual->siguiente;\<close>\<close>

partial_function (option) ultimoNodo :: "'a Nodo almacen \<Rightarrow> dir \<Rightarrow> dir option" where
  "ultimoNodo h actual =
     (case leer h actual of
        None \<Rightarrow> None
      | Some n \<Rightarrow> (case siguiente n of None \<Rightarrow> Some actual | Some p \<Rightarrow> ultimoNodo h p))"

declare ultimoNodo.simps [code]

definition insertarAlFinal :: "dir \<Rightarrow> 'a \<Rightarrow> 'a memoria \<Rightarrow> ('a memoria \<times> 'a msg list) option" where
  "insertarAlFinal this valor s =
     (case leer (listas s) this of
        None \<Rightarrow> None
      | Some L \<Rightarrow>
          (let (nuevoNodo, h) = reservar \<lparr>dato = valor, siguiente = None\<rparr> (nodos s)
           in case cabeza L of
                None \<Rightarrow>
                  Some (s\<lparr>nodos := h,
                          listas := escribir this (L\<lparr>cabeza := Some nuevoNodo, tamano := tamano L + 1\<rparr>) (listas s)\<rparr>,
                        [PrimerNodoInsertado valor])
              | Some c \<Rightarrow>
                  (case ultimoNodo h c of
                     None \<Rightarrow> None
                   | Some actual \<Rightarrow>
                       (case leer h actual of
                          None \<Rightarrow> None
                        | Some n \<Rightarrow>
                            Some (s\<lparr>nodos := escribir actual (n\<lparr>siguiente := Some nuevoNodo\<rparr>) h,
                                    listas := escribir this (L\<lparr>tamano := tamano L + 1\<rparr>) (listas s)\<rparr>,
                                  [NodoInsertadoAlFinal valor])))))"

text \<open>The summing loop of \<^verbatim>\<open>calcularPromedio\<close>.\<close>

partial_function (option) sumarNodos ::
  "'a aritmetica \<Rightarrow> 'a Nodo almacen \<Rightarrow> 'a \<Rightarrow> dir option \<Rightarrow> 'a option" where
  "sumarNodos ar h suma actual =
     (case actual of
        None \<Rightarrow> Some suma
      | Some a \<Rightarrow>
          (case leer h a of
             None \<Rightarrow> None
           | Some n \<Rightarrow> sumarNodos ar h (sumar ar suma (dato n)) (siguiente n)))"

declare sumarNodos.simps [code]

text \<open>\<^verbatim>\<open>calcularPromedio\<close> is a \<^verbatim>\<open>const\<close> method: it returns the value and what it printed.\<close>

definition calcularPromedio ::
  "'a::zero aritmetica \<Rightarrow> dir \<Rightarrow> 'a memoria \<Rightarrow> ('a \<times> 'a msg list) option" where
  "calcularPromedio ar this s =
     (case leer (listas s) this of
        None \<Rightarrow> None
      | Some L \<Rightarrow>
          (case cabeza L of
             None \<Rightarrow> Some (0, [ListaVaciaRetornando0])
           | Some c \<Rightarrow>
               (case sumarNodos ar (nodos s) 0 (Some c) of
                  None \<Rightarrow> None
                | Some suma \<Rightarrow>
                    (case dividir ar suma (tamano L) of
                       None \<Rightarrow> None
                     | Some promedio \<Rightarrow> Some (promedio, [])))))"

text \<open>The search loop of \<^verbatim>\<open>eliminarMinimo\<close>, with its four pointers.\<close>

partial_function (option) buscarMinimo ::
  "'a::ord Nodo almacen \<Rightarrow> dir \<Rightarrow> dir option \<Rightarrow> dir option \<Rightarrow> dir option \<Rightarrow> (dir \<times> dir option) option" where
  "buscarMinimo h minNodo anterior anteriorMin actual =
     (case actual of
        None \<Rightarrow> Some (minNodo, anteriorMin)
      | Some a \<Rightarrow>
          (case leer h a of
             None \<Rightarrow> None
           | Some na \<Rightarrow>
               (case leer h minNodo of
                  None \<Rightarrow> None
                | Some nm \<Rightarrow>
                    if dato na < dato nm
                    then buscarMinimo h a (Some a) anterior (siguiente na)
                    else buscarMinimo h minNodo (Some a) anteriorMin (siguiente na))))"

declare buscarMinimo.simps [code]

definition eliminarMinimo ::
  "dir \<Rightarrow> 'a::{ord,zero} memoria \<Rightarrow> ('a \<times> 'a memoria \<times> 'a msg list) option" where
  "eliminarMinimo this s =
     (case leer (listas s) this of
        None \<Rightarrow> None
      | Some L \<Rightarrow>
          (case cabeza L of
             None \<Rightarrow> Some (0, s, [NoHayElementos])
           | Some c \<Rightarrow>
               (case buscarMinimo (nodos s) c None None (Some c) of
                  None \<Rightarrow> None
                | Some (minNodo, anteriorMin) \<Rightarrow>
                    (case leer (nodos s) minNodo of
                       None \<Rightarrow> None
                     | Some nm \<Rightarrow>
                         (let valorMin = dato nm
                          in if minNodo = c
                             then Some (valorMin,
                                    s\<lparr>nodos := liberar minNodo (nodos s),
                                      listas := escribir this (L\<lparr>cabeza := siguiente nm, tamano := tamano L - 1\<rparr>) (listas s)\<rparr>,
                                    [ValorMinimoEliminado valorMin])
                             else (case anteriorMin of
                                     None \<Rightarrow> None
                                   | Some p \<Rightarrow>
                                       (case leer (nodos s) p of
                                          None \<Rightarrow> None
                                        | Some np \<Rightarrow>
                                            Some (valorMin,
                                              s\<lparr>nodos := liberar minNodo (escribir p (np\<lparr>siguiente := siguiente nm\<rparr>) (nodos s)),
                                                listas := escribir this (L\<lparr>tamano := tamano L - 1\<rparr>) (listas s)\<rparr>,
                                              [ValorMinimoEliminado valorMin]))))))))"

text \<open>\<^verbatim>\<open>imprimir\<close>: the loop that writes the values, head first, on one line.\<close>

partial_function (option) recorrerDatos ::
  "'a Nodo almacen \<Rightarrow> dir option \<Rightarrow> 'a list \<Rightarrow> 'a list option" where
  "recorrerDatos h actual impresos =
     (case actual of
        None \<Rightarrow> Some impresos
      | Some a \<Rightarrow>
          (case leer h a of
             None \<Rightarrow> None
           | Some n \<Rightarrow> recorrerDatos h (siguiente n) (impresos @ [dato n])))"

declare recorrerDatos.simps [code]

definition imprimir :: "dir \<Rightarrow> 'a memoria \<Rightarrow> 'a msg list option" where
  "imprimir this s =
     (case leer (listas s) this of
        None \<Rightarrow> None
      | Some L \<Rightarrow>
          (case cabeza L of
             None \<Rightarrow> Some [ListaVaciaAviso]
           | Some c \<Rightarrow>
               (case recorrerDatos (nodos s) (Some c) [] of
                  None \<Rightarrow> None
                | Some ds \<Rightarrow> Some [Lista ds])))"

definition obtenerTamano :: "dir \<Rightarrow> 'a memoria \<Rightarrow> int option" where
  "obtenerTamano this s = map_option tamano (leer (listas s) this)"

definition estaVacia :: "dir \<Rightarrow> 'a memoria \<Rightarrow> bool option" where
  "estaVacia this s = map_option (\<lambda>L. cabeza L = None) (leer (listas s) this)"

text \<open>The copying loop shared by the copy constructor and \<^verbatim>\<open>operator=\<close>: the value is
  read, \<^verbatim>\<open>insertarAlFinal\<close> runs, and only then \<^verbatim>\<open>actual->siguiente\<close> is read.\<close>

partial_function (option) copiarNodos ::
  "dir \<Rightarrow> dir option \<Rightarrow> 'a memoria \<Rightarrow> 'a msg list \<Rightarrow> ('a memoria \<times> 'a msg list) option" where
  "copiarNodos this actual s impresos =
     (case actual of
        None \<Rightarrow> Some (s, impresos)
      | Some a \<Rightarrow>
          (case leer (nodos s) a of
             None \<Rightarrow> None
           | Some n \<Rightarrow>
               (case insertarAlFinal this (dato n) s of
                  None \<Rightarrow> None
                | Some (s', ms) \<Rightarrow>
                    (case leer (nodos s') a of
                       None \<Rightarrow> None
                     | Some n' \<Rightarrow> copiarNodos this (siguiente n') s' (impresos @ ms)))))"

declare copiarNodos.simps [code]

text \<open>Copy constructor: a new list object, empty, then filled from \<^verbatim>\<open>otra\<close>.\<close>

definition ListaSensor_copia :: "dir \<Rightarrow> 'a memoria \<Rightarrow> (dir \<times> 'a memoria \<times> 'a msg list) option" where
  "ListaSensor_copia otra s =
     (case leer (listas s) otra of
        None \<Rightarrow> None
      | Some Lo \<Rightarrow>
          (let (this, ls) = reservar \<lparr>cabeza = None, tamano = 0\<rparr> (listas s)
           in case copiarNodos this (cabeza Lo) (s\<lparr>listas := ls\<rparr>) [] of
                None \<Rightarrow> None
              | Some (s', ms) \<Rightarrow> Some (this, s', ms)))"

text \<open>The clearing loop of \<^verbatim>\<open>operator=\<close>:
  \<^verbatim>\<open>while (cabeza != nullptr) { temp = cabeza; cabeza = cabeza->siguiente; delete temp; }\<close>\<close>

partial_function (option) liberarNodos :: "'a Nodo almacen \<Rightarrow> dir option \<Rightarrow> 'a Nodo almacen option" where
  "liberarNodos h cab =
     (case cab of
        None \<Rightarrow> Some h
      | Some temp \<Rightarrow>
          (case leer h temp of
             None \<Rightarrow> None
           | Some n \<Rightarrow> liberarNodos (liberar temp h) (siguiente n)))"

declare liberarNodos.simps [code]

definition ListaSensor_asignar :: "dir \<Rightarrow> dir \<Rightarrow> 'a memoria \<Rightarrow> ('a memoria \<times> 'a msg list) option" where
  "ListaSensor_asignar this otra s =
     (if this \<noteq> otra
      then (case leer (listas s) this of
              None \<Rightarrow> None
            | Some L \<Rightarrow>
                (case liberarNodos (nodos s) (cabeza L) of
                   None \<Rightarrow> None
                 | Some h \<Rightarrow>
                     (let s1 = s\<lparr>nodos := h, listas := escribir this (L\<lparr>cabeza := None, tamano := 0\<rparr>) (listas s)\<rparr>
                      in case leer (listas s1) otra of
                           None \<Rightarrow> None
                         | Some Lo \<Rightarrow> copiarNodos this (cabeza Lo) s1 [])))
      else Some (s, []))"

section \<open>The element types\<close>

text \<open>
  \<^verbatim>\<open>ListaSensor<int>\<close>: a C++ \<^verbatim>\<open>int\<close> is 32 bits wide. A value is an integer of
  \<open>[-2^31, 2^31)\<close>; a sum that leaves the range wraps around (\<open>wrap32\<close>). Division truncates
  towards zero (\<open>sdiv\<close>); by zero, and \<^verbatim>\<open>INT_MIN / -1\<close>, it is undefined.
\<close>

definition wrap32 :: "int \<Rightarrow> int" where
  "wrap32 x = (x + 2147483648) mod 4294967296 - 2147483648"

definition arit_int :: "int aritmetica" where
  "arit_int =
     \<lparr>sumar = (\<lambda>a b. wrap32 (a + b)),
      dividir = (\<lambda>a n. if n = 0 \<or> (a = - 2147483648 \<and> n = - 1) then None else Some (a sdiv n))\<rparr>"


section \<open>C library functions the program calls\<close>

text \<open>A C string is the list of its bytes before the terminating NUL.\<close>

definition NUL :: char where
  "NUL = CHR 0x00"

definition c_str :: "char list \<Rightarrow> string" where
  "c_str bytes = takeWhile (\<lambda>c. c \<noteq> NUL) bytes"

text \<open>\<^verbatim>\<open>strncpy(dest, src, n)\<close>: the \<open>n\<close> bytes it writes to \<^verbatim>\<open>dest\<close>: the string in \<^verbatim>\<open>src\<close>,
  cut to \<open>n\<close> bytes, then NUL bytes up to \<open>n\<close> (none when the string fills all \<open>n\<close>).\<close>

definition strncpy :: "char list \<Rightarrow> nat \<Rightarrow> char list" where
  "strncpy src n = take n (c_str src) @ replicate (n - length (c_str src)) NUL"













section \<open>SensorBase.h, SensorTemperatura.h, SensorPresion.h\<close>

text \<open>The dynamic type of a sensor object, which selects the virtual methods.\<close>

datatype clase_sensor = Temperatura | Presion

text \<open>A sensor object: the name of \<^verbatim>\<open>SensorBase\<close> and the \<^verbatim>\<open>historial\<close> list of the
  derived class, a list object of the memory of its element type.\<close>

record Sensor =
  nombre :: string
  clase :: clase_sensor
  historial :: dir

text \<open>What the program writes to \<^verbatim>\<open>std::cout\<close>, one constructor for each line.\<close>

datatype evento =
    ListaTemp "real msg"
  | ListaPres "int msg"
  | SensorBaseCreado string
  | SensorTempInicializado string
  | SensorPresionInicializado string
  | TempLecturaAgregada string real
  | PresionLecturaAgregada string int
  | ProcesandoSensor string
  | TempNoHayLecturas
  | TempLecturaMasBajaEliminada real
  | TempPromedioCalculado int real
  | PresionNoHayLecturas
  | PresionPromedioCalculado int int
  | GestorInicializado
  | PrimerSensorRegistrado string
  | SensorAgregado string
  | LineaMalformada
  | NuevoSensorTemperatura string
  | NuevoSensorPresion string
  | TipoDesconocido string

text \<open>\<^verbatim>\<open>SensorBase(const char* id)\<close> copies the identifier with \<^verbatim>\<open>strcpy\<close> into
  \<^verbatim>\<open>char nombre[50]\<close>: defined only when the identifier and its NUL fit.\<close>

definition SensorBase_ctor :: "string \<Rightarrow> (string \<times> evento list) option" where
  "SensorBase_ctor ident =
     (if length ident < 50 then Some (ident, [SensorBaseCreado ident]) else None)"

definition SensorTemperatura_ctor ::
  "string \<Rightarrow> real memoria \<Rightarrow> (Sensor \<times> real memoria \<times> evento list) option" where
  "SensorTemperatura_ctor ident m =
     (case SensorBase_ctor ident of
        None \<Rightarrow> None
      | Some (nom, es) \<Rightarrow>
          (let (l, m', ms) = ListaSensor_ctor m
           in Some (\<lparr>nombre = nom, clase = Temperatura, historial = l\<rparr>, m',
                    es @ map ListaTemp ms @ [SensorTempInicializado nom])))"

definition SensorPresion_ctor ::
  "string \<Rightarrow> int memoria \<Rightarrow> (Sensor \<times> int memoria \<times> evento list) option" where
  "SensorPresion_ctor ident m =
     (case SensorBase_ctor ident of
        None \<Rightarrow> None
      | Some (nom, es) \<Rightarrow>
          (let (l, m', ms) = ListaSensor_ctor m
           in Some (\<lparr>nombre = nom, clase = Presion, historial = l\<rparr>, m',
                    es @ map ListaPres ms @ [SensorPresionInicializado nom])))"





section \<open>GestorSensores.h: the registry\<close>

text \<open>\<^verbatim>\<open>struct NodoSensor\<close> is a list node whose value is the pointer to a sensor; the
  field \<open>dato\<close> stands for \<^verbatim>\<open>sensor\<close>.\<close>

type_synonym NodoSensor = "Sensor Nodo"

text \<open>\<^verbatim>\<open>class GestorSensores\<close>: \<open>primero\<close> is its \<^verbatim>\<open>cabeza\<close>.\<close>

record GestorSensores =
  primero :: "dir option"
  cantidad :: int

text \<open>Everything the program holds: the registry object and its nodes, and the memories of
  the two list types.\<close>

record sistema =
  nodosSensor :: "NodoSensor almacen"
  gestor :: GestorSensores
  temperaturas :: "real memoria"
  presiones :: "int memoria"

definition GestorSensores_ctor :: "GestorSensores \<times> evento list" where
  "GestorSensores_ctor = (\<lparr>primero = None, cantidad = 0\<rparr>, [GestorInicializado])"

definition agregarSensor :: "Sensor \<Rightarrow> sistema \<Rightarrow> (sistema \<times> evento list) option" where
  "agregarSensor sensor s =
     (let (nuevoNodo, h) = reservar \<lparr>dato = sensor, siguiente = None\<rparr> (nodosSensor s)
      in case primero (gestor s) of
           None \<Rightarrow>
             Some (s\<lparr>nodosSensor := h,
                     gestor := (gestor s)\<lparr>primero := Some nuevoNodo, cantidad := cantidad (gestor s) + 1\<rparr>\<rparr>,
                   [PrimerSensorRegistrado (nombre sensor)])
         | Some c \<Rightarrow>
             (case ultimoNodo h c of
                None \<Rightarrow> None
              | Some actual \<Rightarrow>
                  (case leer h actual of
                     None \<Rightarrow> None
                   | Some n \<Rightarrow>
                       Some (s\<lparr>nodosSensor := escribir actual (n\<lparr>siguiente := Some nuevoNodo\<rparr>) h,
                               gestor := (gestor s)\<lparr>cantidad := cantidad (gestor s) + 1\<rparr>\<rparr>,
                             [SensorAgregado (nombre sensor)]))))"

text \<open>The loop of \<^verbatim>\<open>buscarSensor\<close>; \<^verbatim>\<open>strcmp(...) == 0\<close> is equality of the two strings.
  The result \<open>Some None\<close> is the \<^verbatim>\<open>nullptr\<close> it returns when no sensor matches.\<close>

partial_function (option) buscarDesde ::
  "NodoSensor almacen \<Rightarrow> string \<Rightarrow> dir option \<Rightarrow> Sensor option option" where
  "buscarDesde h ident actual =
     (case actual of
        None \<Rightarrow> Some None
      | Some a \<Rightarrow>
          (case leer h a of
             None \<Rightarrow> None
           | Some n \<Rightarrow>
               if nombre (dato n) = ident then Some (Some (dato n))
               else buscarDesde h ident (siguiente n)))"

declare buscarDesde.simps [code]

definition buscarSensor :: "string \<Rightarrow> sistema \<Rightarrow> Sensor option option" where
  "buscarSensor ident s = buscarDesde (nodosSensor s) ident (primero (gestor s))"

definition obtenerCantidad :: "sistema \<Rightarrow> int" where
  "obtenerCantidad s = cantidad (gestor s)"



section \<open>main.cpp: framing and decoding of lines\<close>

text \<open>The two \<^verbatim>\<open>static\<close> variables of \<^verbatim>\<open>leerLineaSerial\<close>.\<close>

record serial =
  bufferInterno :: "char list"
  posicion :: nat

definition serial_inicial :: serial where
  "serial_inicial = \<lparr>bufferInterno = replicate 256 NUL, posicion = 0\<rparr>"

text \<open>One call of \<^verbatim>\<open>leerLineaSerial\<close>. \<open>leido\<close> is what \<^verbatim>\<open>read(fd, &c, 1)\<close> delivered: a byte, or
  nothing. The result is the returned flag, the \<open>maxLen\<close> bytes written to the caller's
  \<^verbatim>\<open>buffer\<close> if it was written, and the new static state.\<close>

definition leerLineaSerial ::
  "char option \<Rightarrow> nat \<Rightarrow> serial \<Rightarrow> bool \<times> char list option \<times> serial" where
  "leerLineaSerial leido maxLen st =
     (case leido of
        None \<Rightarrow> (False, None, st)
      | Some c \<Rightarrow>
          if c = CHR 0x0A \<or> c = CHR 0x0D
          then (if posicion st > 0
                then (let b = (bufferInterno st)[posicion st := NUL]
                      in (True, Some (strncpy b maxLen), \<lparr>bufferInterno = b, posicion = 0\<rparr>))
                else (False, None, st))
          else if posicion st < 255
               then (False, None,
                     \<lparr>bufferInterno = (bufferInterno st)[posicion st := c], posicion = posicion st + 1\<rparr>)
               else (False, None, st))"



text \<open>The state in which \<^verbatim>\<open>main\<close> starts to receive: the registry just constructed, no
  sensor, no list.\<close>

definition sistema_inicial :: sistema where
  "sistema_inicial =
     \<lparr>nodosSensor = [], gestor = fst GestorSensores_ctor,
      temperaturas = \<lparr>nodos = [], listas = []\<rparr>,
      presiones = \<lparr>nodos = [], listas = []\<rparr>\<rparr>"

text \<open>The receiving loop of \<^verbatim>\<open>main\<close>, seen from the results of \<^verbatim>\<open>read\<close>: it calls
  \<^verbatim>\<open>leerLineaSerial(serialFd, buffer, 256)\<close> for each and, when the call returns \<^verbatim>\<open>true\<close>, takes the
  C string in \<^verbatim>\<open>buffer\<close> as the line. The result is the list of these lines.\<close>

fun lineasRecibidas :: "char option list \<Rightarrow> serial \<Rightarrow> string list \<times> serial" where
  "lineasRecibidas [] st = ([], st)"
| "lineasRecibidas (leido # rs) st =
     (case leerLineaSerial leido 256 st of
        (completa, escrito, st') \<Rightarrow>
          (case lineasRecibidas rs st' of
             (ls, st'') \<Rightarrow>
               ((case escrito of
                   None \<Rightarrow> []
                 | Some buffer \<Rightarrow> if completa then [c_str buffer] else []) @ ls, st'')))"

text \<open>The demonstration branch of \<^verbatim>\<open>main\<close> up to the registration: it creates the sensors
  \<^verbatim>\<open>T-001\<close> and \<^verbatim>\<open>P-105\<close> and registers them in this order.\<close>

definition registrar_sensores_demo :: "sistema \<Rightarrow> (sistema \<times> Sensor \<times> Sensor) option" where
  "registrar_sensores_demo s =
     (case SensorTemperatura_ctor ''T-001'' (temperaturas s) of
        None \<Rightarrow> None
      | Some (tempSensor, mt, es1) \<Rightarrow>
          (case SensorPresion_ctor ''P-105'' (presiones s) of
             None \<Rightarrow> None
           | Some (presSensor, mp, es2) \<Rightarrow>
               (case agregarSensor tempSensor (s\<lparr>temperaturas := mt, presiones := mp\<rparr>) of
                  None \<Rightarrow> None
                | Some (s1, es3) \<Rightarrow>
                    (case agregarSensor presSensor s1 of
                       None \<Rightarrow> None
                     | Some (s2, es4) \<Rightarrow> Some (s2, tempSensor, presSensor)))))"


section \<open>Abstraction: the list a chain of nodes holds\<close>

text \<open>\<open>tramo h p cs q\<close>: following \<^verbatim>\<open>siguiente\<close> from the pointer \<open>p\<close> passes exactly the live
  nodes whose addresses and values are the pairs of \<open>cs\<close>, in this order, and arrives at
  \<open>q\<close>. With \<open>q = None\<close> the chain ends in \<^verbatim>\<open>nullptr\<close>.\<close>

fun tramo :: "'a Nodo almacen \<Rightarrow> dir option \<Rightarrow> (dir \<times> 'a) list \<Rightarrow> dir option \<Rightarrow> bool" where
  "tramo h p [] q = (p = q)"
| "tramo h p (c # cs) q =
     (p = Some (fst c) \<and>
      (case leer h (fst c) of None \<Rightarrow> False | Some n \<Rightarrow> dato n = snd c \<and> tramo h (siguiente n) cs q))"

text \<open>\<open>contiene s this cs\<close>: the list object \<open>this\<close> is live, its chain from \<^verbatim>\<open>cabeza\<close> is
  \<open>cs\<close>, and its counter \<^verbatim>\<open>tamano\<close> is the number of nodes.\<close>

definition contiene :: "'a memoria \<Rightarrow> dir \<Rightarrow> (dir \<times> 'a) list \<Rightarrow> bool" where
  "contiene s this cs =
     (case leer (listas s) this of
        None \<Rightarrow> False
      | Some L \<Rightarrow> tramo (nodos s) (cabeza L) cs None \<and> tamano L = int (length cs))"

text \<open>\<open>solo_cambia s s' this D\<close>: from \<open>s\<close> to \<open>s'\<close> no list object but \<open>this\<close> and no node of
  \<open>s\<close> outside the addresses \<open>D\<close> has changed.\<close>

definition solo_cambia :: "'a memoria \<Rightarrow> 'a memoria \<Rightarrow> dir \<Rightarrow> dir set \<Rightarrow> bool" where
  "solo_cambia s s' this D =
     ((\<forall>l. l \<noteq> this \<longrightarrow> leer (listas s') l = leer (listas s) l) \<and>
      (\<forall>a. a \<notin> D \<longrightarrow> a < length (nodos s) \<longrightarrow> leer (nodos s') a = leer (nodos s) a))"

text \<open>The lines a run of insertions writes: the first into an empty list, the others at
  the end.\<close>

fun avisos_insercion :: "bool \<Rightarrow> 'a list \<Rightarrow> 'a msg list" where
  "avisos_insercion vacia [] = []"
| "avisos_insercion vacia (v # vs) =
     (if vacia then PrimerNodoInsertado v else NodoInsertadoAlFinal v) # avisos_insercion False vs"


text \<open>The bytes the framer holds, its first \<^verbatim>\<open>posicion\<close> cells; the states it can be in (the
  array has 256 cells and \<^verbatim>\<open>posicion\<close> is at most 255); the two terminator bytes.\<close>

definition pendiente :: "serial \<Rightarrow> char list" where
  "pendiente st = take (posicion st) (bufferInterno st)"

definition serial_ok :: "serial \<Rightarrow> bool" where
  "serial_ok st = (length (bufferInterno st) = 256 \<and> posicion st \<le> 255)"

definition LF :: char where "LF = CHR 0x0A"

definition CR :: char where "CR = CHR 0x0D"

text \<open>\<open>registro s cs\<close>: the chain of the registry ends in \<^verbatim>\<open>nullptr\<close>, its nodes hold the sensors
  of \<open>cs\<close> in this order, and \<^verbatim>\<open>cantidad\<close> is their number.\<close>

definition registro :: "sistema \<Rightarrow> (dir \<times> Sensor) list \<Rightarrow> bool" where
  "registro s cs =
     (tramo (nodosSensor s) (primero (gestor s)) cs None \<and> cantidad (gestor s) = int (length cs))"

text \<open>\<open>formada s F\<close>: every list object of the memory \<open>s\<close> holds a chain that ends in \<^verbatim>\<open>nullptr\<close>, with
  the cells \<open>F l\<close> for the list \<open>l\<close> and a counter equal to their number, and no node belongs to
  two lists.\<close>

definition formada :: "'a memoria \<Rightarrow> (dir \<Rightarrow> (dir \<times> 'a) list) \<Rightarrow> bool" where
  "formada s F =
     ((\<forall>l<length (listas s). contiene s l (F l)) \<and>
      (\<forall>l<length (listas s). \<forall>l'<length (listas s).
         l \<noteq> l' \<longrightarrow> fst ` set (F l) \<inter> fst ` set (F l') = {}))"

text \<open>The memory before any list exists.\<close>

definition memoria_vacia :: "'a memoria" where
  "memoria_vacia = \<lparr>nodos = [], listas = []\<rparr>"

text \<open>The public operations of \<^verbatim>\<open>ListaSensor\<close> that build or change lists: the default
  constructor, \<^verbatim>\<open>insertarAlFinal\<close>, \<^verbatim>\<open>eliminarMinimo\<close>, the copy constructor and \<^verbatim>\<open>operator=\<close>
  (\<open>Asignar l l'\<close> is \<^verbatim>\<open>l = l'\<close>), and what it is to run a sequence of them.\<close>

datatype 'a operacion =
    Construir
  | Insertar dir 'a
  | EliminarMin dir
  | Copiar dir
  | Asignar dir dir

fun referencias :: "'a operacion \<Rightarrow> dir list" where
  "referencias Construir = []"
| "referencias (Insertar l v) = [l]"
| "referencias (EliminarMin l) = [l]"
| "referencias (Copiar l) = [l]"
| "referencias (Asignar l l') = [l, l']"

fun ejecutar_op :: "'a::{linorder,zero} operacion \<Rightarrow> 'a memoria \<Rightarrow> 'a memoria option" where
  "ejecutar_op Construir s = Some (fst (snd (ListaSensor_ctor s)))"
| "ejecutar_op (Insertar l v) s = map_option fst (insertarAlFinal l v s)"
| "ejecutar_op (EliminarMin l) s = map_option (\<lambda>r. fst (snd r)) (eliminarMinimo l s)"
| "ejecutar_op (Copiar l) s = map_option (\<lambda>r. fst (snd r)) (ListaSensor_copia l s)"
| "ejecutar_op (Asignar l l') s = map_option fst (ListaSensor_asignar l l' s)"

fun ejecutar :: "'a::{linorder,zero} operacion list \<Rightarrow> 'a memoria \<Rightarrow> 'a memoria option" where
  "ejecutar [] s = Some s"
| "ejecutar (p # ps) s = (case ejecutar_op p s of None \<Rightarrow> None | Some s' \<Rightarrow> ejecutar ps s')"

text \<open>\<open>no_afecta s A B\<close>: in the memory \<open>s\<close>, appending any value to the list \<open>A\<close> and removing the
  minimum of \<open>A\<close> both return, and leave what \<^verbatim>\<open>imprimir\<close> writes for \<open>B\<close> and the size of \<open>B\<close> as
  they were.\<close>

definition no_afecta :: "'a::{linorder,zero} memoria \<Rightarrow> dir \<Rightarrow> dir \<Rightarrow> bool" where
  "no_afecta s A B =
     ((\<forall>v. \<exists>s' ms. insertarAlFinal A v s = Some (s', ms) \<and>
                 imprimir B s' = imprimir B s \<and> obtenerTamano B s' = obtenerTamano B s) \<and>
      (\<exists>x s' ms. eliminarMinimo A s = Some (x, s', ms) \<and>
                 imprimir B s' = imprimir B s \<and> obtenerTamano B s' = obtenerTamano B s))"

text \<open>\<open>copia_de s A B cA\<close>: in \<open>s\<close> the list \<open>B\<close> is a deep copy of the list \<open>A\<close>, whose cells are
  \<open>cA\<close>: another object, the same values in the same order in nodes at other addresses, and
  changing either list leaves the other as it was.\<close>

definition copia_de :: "'a::{linorder,zero} memoria \<Rightarrow> dir \<Rightarrow> dir \<Rightarrow> (dir \<times> 'a) list \<Rightarrow> bool" where
  "copia_de s A B cA =
     (B \<noteq> A \<and> contiene s A cA \<and>
      (\<exists>cB. contiene s B cB \<and> map snd cB = map snd cA \<and> fst ` set cB \<inter> fst ` set cA = {}) \<and>
      imprimir B s = imprimir A s \<and> obtenerTamano B s = obtenerTamano A s \<and>
      no_afecta s A B \<and> no_afecta s B A)"





section \<open>Example states\<close>



text \<open>A memory with one empty list.\<close>

definition ejemplo_vacia :: "int memoria" where
  "ejemplo_vacia = \<lparr>nodos = [], listas = [Some \<lparr>cabeza = None, tamano = 0\<rparr>]\<rparr>"

text \<open>A memory with two lists, holding 5, 3 and 7, the operations that build it, and the
  cells of its first list.\<close>

definition ejemplo_dos_listas :: "int memoria" where
  "ejemplo_dos_listas =
     \<lparr>nodos = [Some \<lparr>dato = 5, siguiente = Some 1\<rparr>, Some \<lparr>dato = 3, siguiente = None\<rparr>,
               Some \<lparr>dato = 7, siguiente = None\<rparr>],
      listas = [Some \<lparr>cabeza = Some 0, tamano = 2\<rparr>, Some \<lparr>cabeza = Some 2, tamano = 1\<rparr>]\<rparr>"

definition operaciones_ejemplo :: "int operacion list" where
  "operaciones_ejemplo = [Construir, Insertar 0 5, Insertar 0 3, Construir, Insertar 1 7]"

definition celdas_dos :: "(dir \<times> int) list" where
  "celdas_dos = [(0, 5), (1, 3)]"

text \<open>The second scenario of the spec: the system after the three pressure lines, and the
  same sensor before any reading.\<close>

definition sensor_presion :: Sensor where
  "sensor_presion = \<lparr>nombre = ''P-105'', clase = Presion, historial = 0\<rparr>"





text \<open>The first scenario of the spec: the system with the sensor \<^verbatim>\<open>T-001\<close> holding no
  reading, then after the three temperature lines, then after one and two calls of
  \<^verbatim>\<open>procesarLectura\<close>.\<close>

definition sensor_temp :: Sensor where
  "sensor_temp = \<lparr>nombre = ''T-001'', clase = Temperatura, historial = 0\<rparr>"








text \<open>The system after the demonstration branch has registered its two sensors, the cells
  of its registry, and a further sensor object that carries the name \<^verbatim>\<open>T-001\<close> again.\<close>

definition sistema_demo :: sistema where
  "sistema_demo =
     \<lparr>nodosSensor = [Some \<lparr>dato = sensor_temp, siguiente = Some 1\<rparr>,
                     Some \<lparr>dato = sensor_presion, siguiente = None\<rparr>],
      gestor = \<lparr>primero = Some 0, cantidad = 2\<rparr>,
      temperaturas = \<lparr>nodos = [], listas = [Some \<lparr>cabeza = None, tamano = 0\<rparr>]\<rparr>,
      presiones = \<lparr>nodos = [], listas = [Some \<lparr>cabeza = None, tamano = 0\<rparr>]\<rparr>\<rparr>"

definition celdas_demo :: "(dir \<times> Sensor) list" where
  "celdas_demo = [(0, sensor_temp), (1, sensor_presion)]"

definition sensor_repetido :: Sensor where
  "sensor_repetido = \<lparr>nombre = ''T-001'', clase = Presion, historial = 1\<rparr>"

text \<open>Three bytes with a NUL in the middle; the framer after the byte \<^verbatim>\<open>a\<close>; the framer with
  255 bytes pending.\<close>

definition flujo_con_NUL :: "char option list" where
  "flujo_con_NUL = [Some (CHR ''a''), Some NUL, Some (CHR ''b'')]"

definition serial_con_a :: serial where
  "serial_con_a = \<lparr>bufferInterno = (replicate 256 NUL)[0 := CHR ''a''], posicion = 1\<rparr>"

definition serial_lleno :: serial where
  "serial_lleno = \<lparr>bufferInterno = replicate 256 (CHR ''x''), posicion = 255\<rparr>"

section \<open>Memory cells\<close>

lemma leer_append1: "leer (h @ [x]) a = (if a = length h then x else leer h a)"
  by (auto simp: leer_def nth_append)

lemma leer_escribir: "leer (escribir a c h) b = (if b = a \<and> a < length h then Some c else leer h b)"
  by (auto simp: leer_def escribir_def)

lemma leer_liberar: "leer (liberar a h) b = (if b = a then None else leer h b)"
  by (auto simp: leer_def liberar_def)

lemma leer_Some_lt: "leer h a = Some c \<Longrightarrow> a < length h"
  by (auto simp: leer_def split: if_splits)

lemma leer_length: "leer h (length h) = None"
  by (simp add: leer_def)

lemma length_escribir: "length (escribir a c h) = length h"
  by (simp add: escribir_def)

lemma length_liberar: "length (liberar a h) = length h"
  by (simp add: liberar_def)

lemma tramo_append:
  "tramo h p (as @ bs) q = (\<exists>r. tramo h p as r \<and> tramo h r bs q)"
  by (induction as arbitrary: p) (auto split: option.splits)

lemma tramo_dirs_lt: "tramo h p cs q \<Longrightarrow> a \<in> fst ` set cs \<Longrightarrow> a < length h"
  by (induction cs arbitrary: p) (auto split: option.splits dest: leer_Some_lt)

lemma tramo_cong:
  "(\<And>a. a \<in> fst ` set cs \<Longrightarrow> leer h' a = leer h a) \<Longrightarrow> tramo h' p cs q = tramo h p cs q"
  by (induction cs arbitrary: p) (auto split: option.splits)

lemma tramo_unico:
  "tramo h p cs None \<Longrightarrow> tramo h p cs' None \<Longrightarrow> cs = cs'"
proof (induction cs arbitrary: p cs')
  case Nil
  then show ?case by (cases cs') auto
next
  case (Cons c cs)
  then show ?case by (cases cs') (auto split: option.splits simp: prod_eq_iff)
qed

lemma tramo_cabeza_fuera:
  assumes "tramo h p (c # cs) None"
  shows "fst c \<notin> fst ` set cs"
proof
  assume "fst c \<in> fst ` set cs"
  then obtain d where d: "d \<in> set cs" "fst d = fst c" by auto
  then obtain xs ys where cs: "cs = xs @ d # ys" by (auto simp: in_set_conv_decomp)
  from assms obtain n where n: "leer h (fst c) = Some n" "tramo h (siguiente n) cs None"
    by (auto split: option.splits)
  from n(2) cs obtain r where "tramo h r (d # ys) None" by (auto simp: tramo_append)
  with d n(1) have "tramo h (siguiente n) ys None" by (auto split: option.splits)
  with n(2) have "cs = ys" by (rule tramo_unico)
  with cs show False by simp
qed

lemma tramo_distinct: "tramo h p cs None \<Longrightarrow> distinct (map fst cs)"
proof (induction cs arbitrary: p)
  case Nil
  then show ?case by simp
next
  case (Cons c cs)
  from Cons.prems have "fst c \<notin> fst ` set cs" by (rule tramo_cabeza_fuera)
  moreover from Cons.prems obtain r where "tramo h r cs None" by (auto split: option.splits)
  ultimately show ?case using Cons.IH by auto
qed

lemma ultimoNodo_paso:
  "leer h a = Some n \<Longrightarrow>
   ultimoNodo h a = (case siguiente n of None \<Rightarrow> Some a | Some p \<Rightarrow> ultimoNodo h p)"
  by (subst ultimoNodo.simps) simp

lemma ultimoNodo_tramo:
  "tramo h (Some c) cs None \<Longrightarrow> ultimoNodo h c = Some (fst (last cs))"
proof (induction cs arbitrary: c)
  case Nil
  then show ?case by simp
next
  case (Cons x xs)
  then show ?case
    by (cases xs) (auto split: option.splits simp: ultimoNodo_paso)
qed

lemma tramo_reservar:
  "tramo h p cs q \<Longrightarrow> tramo (h @ [x]) p cs q"
proof -
  assume a: "tramo h p cs q"
  have "tramo (h @ [x]) p cs q = tramo h p cs q"
    by (rule tramo_cong) (use a in \<open>auto simp: leer_append1 dest: tramo_dirs_lt\<close>)
  with a show ?thesis by simp
qed

lemma tramo_enganchar:
  assumes "tramo h p cs None" and "cs \<noteq> []" and "leer h (fst (last cs)) = Some n"
  shows "tramo (escribir (fst (last cs)) (n\<lparr>siguiente := Some (length h)\<rparr>)
                 (h @ [Some \<lparr>dato = v, siguiente = None\<rparr>]))
           p (cs @ [(length h, v)]) None"
  using assms
proof (induction cs arbitrary: p)
  case Nil
  then show ?case by simp
next
  case (Cons x xs)
  show ?case
  proof (cases xs)
    case Nil
    with Cons.prems show ?thesis
      by (auto simp: leer_escribir leer_append1 split: option.splits dest: leer_Some_lt)
  next
    case (Cons y ys)
    from Cons.prems(1) have fuera: "fst x \<notin> fst ` set xs" by (rule tramo_cabeza_fuera)
    from Cons have "last xs \<in> set xs" by simp
    with fuera have ne: "fst x \<noteq> fst (last xs)" by force
    from Cons.prems(1) obtain nx where nx: "p = Some (fst x)" "leer h (fst x) = Some nx"
      "dato nx = snd x" "tramo h (siguiente nx) xs None"
      by (auto split: option.splits)
    from Cons Cons.prems(3) have "leer h (fst (last xs)) = Some n" by simp
    from Cons.IH[OF nx(4) _ this] Cons
    have "tramo (escribir (fst (last xs)) (n\<lparr>siguiente := Some (length h)\<rparr>)
                 (h @ [Some \<lparr>dato = v, siguiente = None\<rparr>]))
           (siguiente nx) (xs @ [(length h, v)]) None" by simp
    with nx ne Cons show ?thesis
      by (auto simp: leer_escribir leer_append1 dest: leer_Some_lt)
  qed
qed

lemma solo_cambia_contiene:
  assumes "solo_cambia s s' this D" and "contiene s l cs" and "l \<noteq> this" and "fst ` set cs \<inter> D = {}"
  shows "contiene s' l cs"
proof -
  from assms(2) obtain L where L: "leer (listas s) l = Some L" "tramo (nodos s) (cabeza L) cs None"
    "tamano L = int (length cs)"
    by (auto simp: contiene_def split: option.splits)
  have "tramo (nodos s') (cabeza L) cs None = tramo (nodos s) (cabeza L) cs None"
  proof (rule tramo_cong)
    fix a assume "a \<in> fst ` set cs"
    with L(2) assms(4) have "a < length (nodos s)" "a \<notin> D" by (auto dest: tramo_dirs_lt)
    with assms(1) show "leer (nodos s') a = leer (nodos s) a" by (simp add: solo_cambia_def)
  qed
  with L assms(1,3) show ?thesis by (simp add: contiene_def solo_cambia_def)
qed

lemma insertarAlFinal_contiene:
  assumes "contiene s this cs"
  shows "\<exists>s'. insertarAlFinal this v s =
                Some (s', [if cs = [] then PrimerNodoInsertado v else NodoInsertadoAlFinal v]) \<and>
              contiene s' this (cs @ [(length (nodos s), v)]) \<and>
              solo_cambia s s' this (fst ` set cs) \<and>
              length (listas s') = length (listas s) \<and>
              length (nodos s') = Suc (length (nodos s))"
proof -
  from assms obtain L where L: "leer (listas s) this = Some L" "tramo (nodos s) (cabeza L) cs None"
    "tamano L = int (length cs)"
    by (auto simp: contiene_def split: option.splits)
  show ?thesis
  proof (cases cs)
    case Nil
    with L show ?thesis
      by (auto simp: insertarAlFinal_def reservar_def contiene_def solo_cambia_def
          leer_escribir leer_append1 length_escribir dest: leer_Some_lt)
  next
    case (Cons x xs)
    with L obtain c where c: "cabeza L = Some c" by auto
    let ?h1 = "nodos s @ [Some \<lparr>dato = v, siguiente = None\<rparr>]"
    from L(2) c have t1: "tramo ?h1 (Some c) cs None" by (simp add: tramo_reservar)
    then have u: "ultimoNodo ?h1 c = Some (fst (last cs))" by (rule ultimoNodo_tramo)
    from Cons have "last cs \<in> set cs" by simp
    then have "fst (last cs) \<in> fst ` set cs" by simp
    with L(2) have lt: "fst (last cs) < length (nodos s)" by (rule tramo_dirs_lt)
    from Cons have "cs = butlast cs @ [last cs]" by simp
    with L(2) obtain r where "tramo (nodos s) r [last cs] None"
      by (metis tramo_append)
    then obtain n where n: "leer (nodos s) (fst (last cs)) = Some n"
      by (auto split: option.splits)
    with lt have n1: "leer ?h1 (fst (last cs)) = Some n" by (simp add: leer_append1)
    from Cons have ne: "cs \<noteq> []" by simp
    from tramo_enganchar[OF L(2) ne n, of v] c
    have t2: "tramo (escribir (fst (last cs)) (n\<lparr>siguiente := Some (length (nodos s))\<rparr>) ?h1)
               (cabeza L) (cs @ [(length (nodos s), v)]) None" by simp
    from L c u n1 t2 ne \<open>fst (last cs) \<in> fst ` set cs\<close> show ?thesis
      by (auto simp: insertarAlFinal_def reservar_def contiene_def solo_cambia_def
          leer_escribir leer_append1 length_escribir dest: leer_Some_lt)
  qed
qed

lemma buscarMinimo_fin: "buscarMinimo h m ant antMin None = Some (m, antMin)"
  by (subst buscarMinimo.simps) simp

lemma buscarMinimo_paso:
  "leer h a = Some na \<Longrightarrow> leer h m = Some nm \<Longrightarrow>
   buscarMinimo h m ant antMin (Some a) =
     (if dato na < dato nm then buscarMinimo h a (Some a) ant (siguiente na)
      else buscarMinimo h m (Some a) antMin (siguiente na))"
  by (subst buscarMinimo.simps) simp

lemma buscarMinimo_tramo:
  fixes h :: "'a::linorder Nodo almacen"
  assumes "tramo h actual rest None"
    and "leer h m = Some nm"
    and "hechos = pre @ (m, dato nm) # mid"
    and "\<forall>x\<in>set pre. dato nm < snd x"
    and "\<forall>x\<in>set mid. dato nm \<le> snd x"
    and "antMin = (if pre = [] then None else Some (fst (last pre)))"
    and "ant = Some (fst (last hechos))"
  shows "\<exists>pre' c' post'.
           buscarMinimo h m ant antMin actual =
             Some (fst c', if pre' = [] then None else Some (fst (last pre'))) \<and>
           hechos @ rest = pre' @ c' # post' \<and>
           (\<forall>x\<in>set pre'. snd c' < snd x) \<and> (\<forall>x\<in>set post'. snd c' \<le> snd x)"
  using assms
proof (induction rest arbitrary: actual m nm hechos pre mid antMin ant)
  case Nil
  then have "actual = None" by simp
  with Nil show ?case
    by (intro exI[of _ pre] exI[of _ "(m, dato nm)"] exI[of _ mid]) (simp add: buscarMinimo_fin)
next
  case (Cons c r)
  from Cons.prems(1) obtain nc where nc: "actual = Some (fst c)" "leer h (fst c) = Some nc"
    "dato nc = snd c" "tramo h (siguiente nc) r None"
    by (auto split: option.splits)
  show ?case
  proof (cases "snd c < dato nm")
    case True
    have paso: "buscarMinimo h m ant antMin actual =
                buscarMinimo h (fst c) (Some (fst c)) ant (siguiente nc)"
      using nc Cons.prems(2) True by (simp add: buscarMinimo_paso)
    have h1: "hechos @ [c] = hechos @ (fst c, dato nc) # []" using nc by simp
    have h2: "\<forall>x\<in>set hechos. dato nc < snd x"
      using Cons.prems(3,4,5) True nc by auto
    have h3: "ant = (if hechos = [] then None else Some (fst (last hechos)))"
      using Cons.prems(3,7) by simp
    from Cons.IH[OF nc(4) nc(2) h1 h2 _ h3, of "Some (fst c)"]
    obtain pre' c' post' where
      "buscarMinimo h (fst c) (Some (fst c)) ant (siguiente nc) =
         Some (fst c', if pre' = [] then None else Some (fst (last pre')))"
      "(hechos @ [c]) @ r = pre' @ c' # post'"
      "\<forall>x\<in>set pre'. snd c' < snd x" "\<forall>x\<in>set post'. snd c' \<le> snd x"
      by auto
    with paso show ?thesis by (intro exI[of _ pre'] exI[of _ c'] exI[of _ post']) simp
  next
    case False
    have paso: "buscarMinimo h m ant antMin actual =
                buscarMinimo h m (Some (fst c)) antMin (siguiente nc)"
      using nc Cons.prems(2) False by (simp add: buscarMinimo_paso)
    have h1: "hechos @ [c] = pre @ (m, dato nm) # (mid @ [c])" using Cons.prems(3) by simp
    have h2: "\<forall>x\<in>set (mid @ [c]). dato nm \<le> snd x"
      using Cons.prems(5) False by auto
    from Cons.IH[OF nc(4) Cons.prems(2) h1 Cons.prems(4) h2 Cons.prems(6), of "Some (fst c)"]
    obtain pre' c' post' where
      "buscarMinimo h m (Some (fst c)) antMin (siguiente nc) =
         Some (fst c', if pre' = [] then None else Some (fst (last pre')))"
      "(hechos @ [c]) @ r = pre' @ c' # post'"
      "\<forall>x\<in>set pre'. snd c' < snd x" "\<forall>x\<in>set post'. snd c' \<le> snd x"
      by auto
    with paso show ?thesis by (intro exI[of _ pre'] exI[of _ c'] exI[of _ post']) simp
  qed
qed

lemma buscarMinimo_cadena:
  fixes h :: "'a::linorder Nodo almacen"
  assumes "tramo h (Some c) cs None"
  shows "\<exists>pre' c' post'.
           buscarMinimo h c None None (Some c) =
             Some (fst c', if pre' = [] then None else Some (fst (last pre'))) \<and>
           cs = pre' @ c' # post' \<and>
           (\<forall>x\<in>set pre'. snd c' < snd x) \<and> (\<forall>x\<in>set post'. snd c' \<le> snd x)"
proof -
  from assms obtain x xs nc where x: "cs = x # xs" "c = fst x" "leer h c = Some nc"
    "dato nc = snd x" "tramo h (siguiente nc) xs None"
    by (cases cs) (auto split: option.splits)
  have paso: "buscarMinimo h c None None (Some c) = buscarMinimo h c (Some c) None (siguiente nc)"
    using x by (simp add: buscarMinimo_paso)
  have "[x] = [] @ (c, dato nc) # []" using x by (simp add: prod_eq_iff)
  from buscarMinimo_tramo[OF x(5) x(3) this, of None "Some c"] x(2)
  obtain pre' c' post' where
    "buscarMinimo h c (Some c) None (siguiente nc) =
       Some (fst c', if pre' = [] then None else Some (fst (last pre')))"
    "[x] @ xs = pre' @ c' # post'"
    "\<forall>x\<in>set pre'. snd c' < snd x" "\<forall>x\<in>set post'. snd c' \<le> snd x"
    by auto
  with paso x(1) show ?thesis by (intro exI[of _ pre'] exI[of _ c'] exI[of _ post']) simp
qed

lemma dir_fuera: "a \<in> D \<Longrightarrow> p \<notin> D \<Longrightarrow> a \<noteq> p"
  by auto

lemma tramo_desenganchar:
  assumes t: "tramo h p0 (pre @ c # post) None" and ne: "pre \<noteq> []"
    and np: "leer h (fst (last pre)) = Some np" and nm: "leer h (fst c) = Some nm"
  shows "tramo (liberar (fst c) (escribir (fst (last pre)) (np\<lparr>siguiente := siguiente nm\<rparr>) h))
           p0 (pre @ post) None"
proof -
  let ?p = "fst (last pre)"
  let ?h' = "liberar (fst c) (escribir ?p (np\<lparr>siguiente := siguiente nm\<rparr>) h)"
  from t have d: "distinct (map fst (pre @ c # post))" by (rule tramo_distinct)
  from ne have pre: "butlast pre @ [last pre] = pre" by simp
  then have "(butlast pre @ [last pre]) @ c # post = pre @ c # post" by simp
  then have e: "pre @ c # post = butlast pre @ last pre # c # post" by simp
  from t have "\<exists>r. tramo h p0 (butlast pre) r \<and> tramo h r (last pre # c # post) None"
    unfolding e by (simp only: tramo_append)
  then obtain r where r: "tramo h p0 (butlast pre) r" "tramo h r (last pre # c # post) None"
    by blast
  from r(2) np nm have parts: "r = Some ?p" "dato np = snd (last pre)" "siguiente np = Some (fst c)"
    "dato nm = snd c" "tramo h (siguiente nm) post None"
    by (auto split: option.splits)
  from np have lt: "?p < length h" by (rule leer_Some_lt)
  from d have "distinct (map fst (butlast pre @ last pre # c # post))" unfolding e .
  then have d1: "?p \<notin> fst ` set (butlast pre)" "?p \<noteq> fst c" "?p \<notin> fst ` set post"
    "fst c \<notin> fst ` set (butlast pre)" "fst c \<notin> fst ` set post"
    by auto
  have a: "tramo ?h' p0 (butlast pre) r = tramo h p0 (butlast pre) r"
  proof (rule tramo_cong)
    fix a assume "a \<in> fst ` set (butlast pre)"
    from this d1(1) have "a \<noteq> ?p" by (rule dir_fuera)
    moreover from \<open>a \<in> fst ` set (butlast pre)\<close> d1(4) have "a \<noteq> fst c" by (rule dir_fuera)
    ultimately show "leer ?h' a = leer h a" by (simp add: leer_liberar leer_escribir)
  qed
  have b: "tramo ?h' (siguiente nm) post None = tramo h (siguiente nm) post None"
  proof (rule tramo_cong)
    fix a assume "a \<in> fst ` set post"
    from this d1(3) have "a \<noteq> ?p" by (rule dir_fuera)
    moreover from \<open>a \<in> fst ` set post\<close> d1(5) have "a \<noteq> fst c" by (rule dir_fuera)
    ultimately show "leer ?h' a = leer h a" by (simp add: leer_liberar leer_escribir)
  qed
  have c: "tramo ?h' r [last pre] (siguiente nm)"
    using parts d1(2) lt by (simp add: leer_liberar leer_escribir)
  from a r(1) have a': "tramo ?h' p0 (butlast pre) r" by simp
  from b parts(5) have b': "tramo ?h' (siguiente nm) post None" by simp
  from c b' have "tramo ?h' r ([last pre] @ post) None"
    by (simp only: tramo_append) blast
  with a' have "tramo ?h' p0 (butlast pre @ ([last pre] @ post)) None"
    by (simp only: tramo_append) blast
  then have "tramo ?h' p0 ((butlast pre @ [last pre]) @ post) None" by simp
  then show ?thesis unfolding pre .
qed

lemma tramo_cola_liberar:
  assumes "tramo h (Some a) (c # post) None"
  shows "\<exists>n. leer h a = Some n \<and> dato n = snd c \<and> fst c = a \<and>
             tramo (liberar a h) (siguiente n) post None"
proof -
  from assms obtain n where n: "fst c = a" "leer h a = Some n" "dato n = snd c"
    "tramo h (siguiente n) post None"
    by (auto split: option.splits)
  from assms have fuera: "fst c \<notin> fst ` set post" by (rule tramo_cabeza_fuera)
  have "tramo (liberar a h) (siguiente n) post None = tramo h (siguiente n) post None"
  proof (rule tramo_cong)
    fix b assume "b \<in> fst ` set post"
    from this fuera have "b \<noteq> fst c" by (rule dir_fuera)
    with n(1) show "leer (liberar a h) b = leer h b" by (simp add: leer_liberar)
  qed
  with n show ?thesis by simp
qed

lemma eliminarMinimo_contiene:
  fixes s :: "'a::{linorder,zero} memoria"
  assumes "contiene s this cs" and "cs \<noteq> []"
  shows "\<exists>s' pre c post.
           cs = pre @ c # post \<and>
           (\<forall>x\<in>set pre. snd c < snd x) \<and> (\<forall>x\<in>set post. snd c \<le> snd x) \<and>
           eliminarMinimo this s = Some (snd c, s', [ValorMinimoEliminado (snd c)]) \<and>
           contiene s' this (pre @ post) \<and>
           solo_cambia s s' this (fst ` set cs) \<and>
           length (listas s') = length (listas s) \<and>
           length (nodos s') = length (nodos s) \<and>
           leer (nodos s') (fst c) = None"
proof -
  from assms(1) obtain L where L: "leer (listas s) this = Some L"
    "tramo (nodos s) (cabeza L) cs None" "tamano L = int (length cs)"
    by (auto simp: contiene_def split: option.splits)
  from L(2) assms(2) obtain c0 where c0: "cabeza L = Some c0" by (cases cs) auto
  from L(1) have lt: "this < length (listas s)" by (rule leer_Some_lt)
  from L(2) c0 have t: "tramo (nodos s) (Some c0) cs None" by simp
  from buscarMinimo_cadena[OF t] obtain pre c post where
    b: "buscarMinimo (nodos s) c0 None None (Some c0) =
          Some (fst c, if pre = [] then None else Some (fst (last pre)))"
    and cs: "cs = pre @ c # post"
    and mn: "\<forall>x\<in>set pre. snd c < snd x" "\<forall>x\<in>set post. snd c \<le> snd x"
    by blast
  from t cs have "\<exists>r. tramo (nodos s) (Some c0) pre r \<and> tramo (nodos s) r (c # post) None"
    by (simp only: tramo_append)
  then obtain r where r: "tramo (nodos s) (Some c0) pre r" "tramo (nodos s) r (c # post) None"
    by blast
  from r(2) obtain nm where nm: "leer (nodos s) (fst c) = Some nm" "dato nm = snd c"
    by (auto split: option.splits)
  from t have d: "distinct (map fst cs)" by (rule tramo_distinct)
  show ?thesis
  proof (cases "pre = []")
    case True
    with r cs have r0: "r = Some c0" and hd: "fst c = c0" by auto
    from tramo_cola_liberar[OF r(2)[unfolded r0]] nm
    have t': "tramo (liberar c0 (nodos s)) (siguiente nm) post None" by auto
    let ?s' = "s\<lparr>nodos := liberar c0 (nodos s),
                 listas := escribir this (L\<lparr>cabeza := siguiente nm, tamano := tamano L - 1\<rparr>) (listas s)\<rparr>"
    have e: "eliminarMinimo this s = Some (snd c, ?s', [ValorMinimoEliminado (snd c)])"
      using L c0 b nm hd True by (simp add: eliminarMinimo_def Let_def)
    have c1: "contiene ?s' this (pre @ post)"
      using True t' L(3) cs lt by (simp add: contiene_def leer_escribir)
    have f: "solo_cambia s ?s' this (fst ` set cs)"
      using hd cs by (auto simp: solo_cambia_def leer_escribir leer_liberar)
    from e c1 f cs mn hd show ?thesis
      by (intro exI[of _ ?s'] exI[of _ pre] exI[of _ c] exI[of _ post])
         (simp add: length_escribir length_liberar leer_liberar)
  next
    case False
    then have lp: "last pre \<in> set pre" by simp
    from d cs lp have ne: "fst c \<noteq> c0"
    proof -
      from False obtain x xs where "pre = x # xs" by (cases pre) auto
      with r(1) have "fst x = c0" by auto
      with d cs \<open>pre = x # xs\<close> show ?thesis by auto
    qed
    from False have "butlast pre @ [last pre] = pre" by simp
    with r(1) have "\<exists>q. tramo (nodos s) (Some c0) (butlast pre) q \<and> tramo (nodos s) q [last pre] r"
      by (metis tramo_append)
    then obtain np where np: "leer (nodos s) (fst (last pre)) = Some np"
      by (auto split: option.splits)
    let ?h' = "liberar (fst c) (escribir (fst (last pre)) (np\<lparr>siguiente := siguiente nm\<rparr>) (nodos s))"
    from tramo_desenganchar[OF t[unfolded cs] False np nm(1)]
    have t': "tramo ?h' (Some c0) (pre @ post) None" .
    let ?s' = "s\<lparr>nodos := ?h', listas := escribir this (L\<lparr>tamano := tamano L - 1\<rparr>) (listas s)\<rparr>"
    have e: "eliminarMinimo this s = Some (snd c, ?s', [ValorMinimoEliminado (snd c)])"
      using L c0 b nm np ne False by (simp add: eliminarMinimo_def Let_def)
    have c1: "contiene ?s' this (pre @ post)"
      using t' L(3) c0 cs lt by (simp add: contiene_def leer_escribir)
    have f: "solo_cambia s ?s' this (fst ` set cs)"
      using cs lp by (auto simp: solo_cambia_def leer_escribir leer_liberar)
    from e c1 f cs mn show ?thesis
      by (intro exI[of _ ?s'] exI[of _ pre] exI[of _ c] exI[of _ post])
         (simp add: length_escribir length_liberar leer_liberar)
  qed
qed


lemma recorrerDatos_tramo:
  "tramo h p cs None \<Longrightarrow> recorrerDatos h p impresos = Some (impresos @ map snd cs)"
proof (induction cs arbitrary: p impresos)
  case Nil
  then show ?case by (subst recorrerDatos.simps) simp
next
  case (Cons c cs)
  then show ?case by (subst recorrerDatos.simps) (auto split: option.splits)
qed

lemma liberarNodos_tramo:
  "tramo h p cs None \<Longrightarrow>
   \<exists>h'. liberarNodos h p = Some h' \<and> length h' = length h \<and>
        (\<forall>a. leer h' a = (if a \<in> fst ` set cs then None else leer h a))"
proof (induction cs arbitrary: p h)
  case Nil
  then show ?case by (subst liberarNodos.simps) simp
next
  case (Cons c cs)
  from Cons.prems have p: "p = Some (fst c)" by simp
  from tramo_cola_liberar[OF Cons.prems[unfolded p]]
  obtain n where n: "leer h (fst c) = Some n" "tramo (liberar (fst c) h) (siguiente n) cs None"
    by auto
  from Cons.IH[OF n(2)] obtain h' where h': "liberarNodos (liberar (fst c) h) (siguiente n) = Some h'"
    "length h' = length h" "\<forall>a. leer h' a = (if a \<in> fst ` set cs then None else leer (liberar (fst c) h) a)"
    by (auto simp: length_liberar)
  have "liberarNodos h p = Some h'"
    using p n(1) h'(1) by (subst liberarNodos.simps) simp
  with h'(2,3) show ?case by (auto simp: leer_liberar)
qed

lemma copiarNodos_tramo:
  assumes "contiene s this ct" and "tramo (nodos s) actual rest None"
    and "fst ` set rest \<inter> fst ` set ct = {}"
  shows "\<exists>s' nuevas.
           copiarNodos this actual s impresos =
             Some (s', impresos @ avisos_insercion (ct = []) (map snd rest)) \<and>
           contiene s' this (ct @ nuevas) \<and>
           map snd nuevas = map snd rest \<and>
           map fst nuevas = [length (nodos s) ..< length (nodos s) + length rest] \<and>
           solo_cambia s s' this (fst ` set ct) \<and>
           length (listas s') = length (listas s) \<and>
           length (nodos s') = length (nodos s) + length rest"
  using assms
proof (induction rest arbitrary: actual s ct impresos)
  case Nil
  then have "copiarNodos this actual s impresos = Some (s, impresos)"
    by (subst copiarNodos.simps) simp
  with Nil show ?case
    by (intro exI[of _ s] exI[of _ "[]"]) (simp add: solo_cambia_def)
next
  case (Cons c r)
  from Cons.prems(2) obtain n where n: "actual = Some (fst c)" "leer (nodos s) (fst c) = Some n"
    "dato n = snd c" "tramo (nodos s) (siguiente n) r None"
    by (auto split: option.splits)
  let ?m = "if ct = [] then PrimerNodoInsertado (snd c) else NodoInsertadoAlFinal (snd c)"
  from insertarAlFinal_contiene[OF Cons.prems(1), of "snd c"]
  obtain s1 where s1: "insertarAlFinal this (snd c) s = Some (s1, [?m])"
    "contiene s1 this (ct @ [(length (nodos s), snd c)])"
    "solo_cambia s s1 this (fst ` set ct)"
    "length (listas s1) = length (listas s)" "length (nodos s1) = Suc (length (nodos s))"
    by blast
  have lt: "\<And>a. a \<in> fst ` set (c # r) \<Longrightarrow> a < length (nodos s)"
    using Cons.prems(2) by (rule tramo_dirs_lt)
  have igual: "\<And>a. a \<in> fst ` set (c # r) \<Longrightarrow> leer (nodos s1) a = leer (nodos s) a"
  proof -
    fix a assume a: "a \<in> fst ` set (c # r)"
    with Cons.prems(3) have "a \<notin> fst ` set ct" by blast
    with lt[OF a] s1(3) show "leer (nodos s1) a = leer (nodos s) a" by (simp add: solo_cambia_def)
  qed
  have n1: "leer (nodos s1) (fst c) = Some n" using igual[of "fst c"] n(2) by simp
  have "tramo (nodos s1) (siguiente n) r None = tramo (nodos s) (siguiente n) r None"
    by (rule tramo_cong) (simp add: igual)
  with n(4) have t1: "tramo (nodos s1) (siguiente n) r None" by simp
  have dj: "fst ` set r \<inter> fst ` set (ct @ [(length (nodos s), snd c)]) = {}"
  proof -
    have "length (nodos s) \<notin> fst ` set r"
    proof
      assume "length (nodos s) \<in> fst ` set r"
      then have "length (nodos s) \<in> fst ` set (c # r)" by auto
      from lt[OF this] show False by simp
    qed
    with Cons.prems(3) show ?thesis by auto
  qed
  from Cons.IH[OF s1(2) t1 dj, of "impresos @ [?m]"]
  obtain s' nuevas where s': "copiarNodos this (siguiente n) s1 (impresos @ [?m]) =
       Some (s', (impresos @ [?m]) @ avisos_insercion (ct @ [(length (nodos s), snd c)] = []) (map snd r))"
    "contiene s' this ((ct @ [(length (nodos s), snd c)]) @ nuevas)"
    "map snd nuevas = map snd r"
    "map fst nuevas = [length (nodos s1) ..< length (nodos s1) + length r]"
    "solo_cambia s1 s' this (fst ` set (ct @ [(length (nodos s), snd c)]))"
    "length (listas s') = length (listas s1)" "length (nodos s') = length (nodos s1) + length r"
    by blast
  have paso: "copiarNodos this actual s impresos = copiarNodos this (siguiente n) s1 (impresos @ [?m])"
    using n s1(1) n1 by (subst copiarNodos.simps) simp
  have sc: "solo_cambia s s' this (fst ` set ct)"
    unfolding solo_cambia_def
  proof (intro conjI allI impI)
    fix l assume "l \<noteq> this"
    with s1(3) s'(5) show "leer (listas s') l = leer (listas s) l" by (simp add: solo_cambia_def)
  next
    fix a assume a: "a \<notin> fst ` set ct" "a < length (nodos s)"
    then have "a \<notin> fst ` set (ct @ [(length (nodos s), snd c)])" "a < length (nodos s1)"
      using s1(5) by auto
    with s'(5) have "leer (nodos s') a = leer (nodos s1) a" by (simp add: solo_cambia_def)
    with a s1(3) show "leer (nodos s') a = leer (nodos s) a" by (simp add: solo_cambia_def)
  qed
  have rango: "map fst ((length (nodos s), snd c) # nuevas) =
               [length (nodos s) ..< length (nodos s) + length (c # r)]"
  proof -
    have "[length (nodos s) ..< length (nodos s) + length (c # r)] =
          length (nodos s) # [Suc (length (nodos s)) ..< Suc (length (nodos s)) + length r]"
      by (simp add: upt_conv_Cons del: upt_Suc)
    with s'(4) s1(5) show ?thesis by (simp del: upt_Suc)
  qed
  from paso s' s1 sc rango show ?case
    by (intro exI[of _ s'] exI[of _ "(length (nodos s), snd c) # nuevas"]) simp
qed

section \<open>Well-formed memories\<close>

lemma contiene_viva: "contiene s l cs \<Longrightarrow> l < length (listas s)"
  by (auto simp: contiene_def split: option.splits dest: leer_Some_lt)

lemma contiene_dirs_lt: "contiene s l cs \<Longrightarrow> a \<in> fst ` set cs \<Longrightarrow> a < length (nodos s)"
  by (auto simp: contiene_def split: option.splits dest: tramo_dirs_lt)

lemma contiene_unico: "contiene s l cs \<Longrightarrow> contiene s l cs' \<Longrightarrow> cs = cs'"
  by (auto simp: contiene_def split: option.splits dest: tramo_unico)

lemma formada_vacia: "formada memoria_vacia (\<lambda>l. [])"
  by (simp add: formada_def memoria_vacia_def)

lemma formada_actualizar:
  assumes f: "formada s F" and viva: "this < length (listas s)"
    and sc: "solo_cambia s s' this (fst ` set (F this))"
    and len: "length (listas s') = length (listas s)"
    and c': "contiene s' this cs'"
    and procedencia: "\<And>a. a \<in> fst ` set cs' \<Longrightarrow> a \<in> fst ` set (F this) \<or> length (nodos s) \<le> a"
  shows "formada s' (F(this := cs'))"
  unfolding formada_def
proof (intro conjI allI impI)
  fix l assume l: "l < length (listas s')"
  show "contiene s' l ((F(this := cs')) l)"
  proof (cases "l = this")
    case True
    with c' show ?thesis by simp
  next
    case False
    from f l len have cl: "contiene s l (F l)" by (simp add: formada_def)
    from f l len viva False have "fst ` set (F l) \<inter> fst ` set (F this) = {}"
      by (simp add: formada_def)
    from solo_cambia_contiene[OF sc cl False this] False show ?thesis by simp
  qed
next
  fix l l' assume l: "l < length (listas s')" "l' < length (listas s')" "l \<noteq> l'"
  have otros: "\<And>k. k < length (listas s) \<Longrightarrow> k \<noteq> this \<Longrightarrow> fst ` set cs' \<inter> fst ` set (F k) = {}"
  proof -
    fix k assume k: "k < length (listas s)" "k \<noteq> this"
    from f k viva have dj: "fst ` set (F this) \<inter> fst ` set (F k) = {}" by (simp add: formada_def)
    from f k have ck: "contiene s k (F k)" by (simp add: formada_def)
    show "fst ` set cs' \<inter> fst ` set (F k) = {}"
    proof (rule ccontr)
      assume "fst ` set cs' \<inter> fst ` set (F k) \<noteq> {}"
      then obtain a where a: "a \<in> fst ` set cs'" "a \<in> fst ` set (F k)" by auto
      from contiene_dirs_lt[OF ck a(2)] procedencia[OF a(1)] have "a \<in> fst ` set (F this)" by auto
      with a(2) dj show False by auto
    qed
  qed
  show "fst ` set ((F(this := cs')) l) \<inter> fst ` set ((F(this := cs')) l') = {}"
  proof (cases "l = this")
    case True
    with l len otros[of l'] show ?thesis by simp
  next
    case False
    show ?thesis
    proof (cases "l' = this")
      case True
      with l len otros[of l] False show ?thesis by (simp add: Int_commute)
    next
      case False
      with \<open>l \<noteq> this\<close> f l len show ?thesis by (simp add: formada_def)
    qed
  qed
qed

lemma formada_ctor:
  assumes "formada s F"
  shows "formada (s\<lparr>listas := listas s @ [Some \<lparr>cabeza = None, tamano = 0\<rparr>]\<rparr>)
           (F(length (listas s) := []))"
  unfolding formada_def
proof (intro conjI allI impI)
  let ?s' = "s\<lparr>listas := listas s @ [Some \<lparr>cabeza = None, tamano = 0\<rparr>]\<rparr>"
  fix l assume l: "l < length (listas ?s')"
  show "contiene ?s' l ((F(length (listas s) := [])) l)"
  proof (cases "l = length (listas s)")
    case True
    then show ?thesis by (simp add: contiene_def leer_append1)
  next
    case False
    with l have "l < length (listas s)" by simp
    with assms have "contiene s l (F l)" by (simp add: formada_def)
    with False show ?thesis by (auto simp: contiene_def leer_append1 split: option.splits)
  qed
next
  let ?s' = "s\<lparr>listas := listas s @ [Some \<lparr>cabeza = None, tamano = 0\<rparr>]\<rparr>"
  fix l l' assume l: "l < length (listas ?s')" "l' < length (listas ?s')" "l \<noteq> l'"
  show "fst ` set ((F(length (listas s) := [])) l) \<inter> fst ` set ((F(length (listas s) := [])) l') = {}"
  proof (cases "l = length (listas s) \<or> l' = length (listas s)")
    case True
    then show ?thesis by auto
  next
    case False
    with l assms show ?thesis by (simp add: formada_def)
  qed
qed

lemma formada_contiene: "formada s F \<Longrightarrow> l < length (listas s) \<Longrightarrow> contiene s l (F l)"
  by (simp add: formada_def)

lemma formada_insertarAlFinal:
  assumes f: "formada s F" and viva: "this < length (listas s)"
  shows "\<exists>s'. insertarAlFinal this v s =
                 Some (s', [if F this = [] then PrimerNodoInsertado v else NodoInsertadoAlFinal v]) \<and>
              formada s' (F(this := F this @ [(length (nodos s), v)])) \<and>
              length (listas s') = length (listas s)"
proof -
  from f viva have c: "contiene s this (F this)" by (simp add: formada_def)
  from insertarAlFinal_contiene[OF c, of v] obtain s' where
    s': "insertarAlFinal this v s =
           Some (s', [if F this = [] then PrimerNodoInsertado v else NodoInsertadoAlFinal v])"
        "contiene s' this (F this @ [(length (nodos s), v)])"
        "solo_cambia s s' this (fst ` set (F this))"
        "length (listas s') = length (listas s)"
    by blast
  have "formada s' (F(this := F this @ [(length (nodos s), v)]))"
    by (rule formada_actualizar[OF f viva s'(3,4,2)]) auto
  with s'(1,4) show ?thesis by blast
qed

lemma formada_eliminarMinimo:
  fixes s :: "'a::{linorder,zero} memoria"
  assumes f: "formada s F" and viva: "this < length (listas s)"
  shows "\<exists>x s' ms cs'. eliminarMinimo this s = Some (x, s', ms) \<and>
              formada s' (F(this := cs')) \<and> length (listas s') = length (listas s)"
proof (cases "F this = []")
  case True
  from formada_contiene[OF f viva] True have c: "contiene s this []" by simp
  then have "eliminarMinimo this s = Some (0, s, [NoHayElementos])"
    by (auto simp: contiene_def eliminarMinimo_def split: option.splits)
  moreover from True have "F(this := []) = F" by auto
  ultimately show ?thesis using f by (intro exI[of _ 0] exI[of _ s] exI[of _ "[NoHayElementos]"] exI[of _ "[]"]) simp
next
  case False
  from f viva have c: "contiene s this (F this)" by (simp add: formada_def)
  from eliminarMinimo_contiene[OF c False] obtain s' pre c0 post where
    r: "F this = pre @ c0 # post"
       "eliminarMinimo this s = Some (snd c0, s', [ValorMinimoEliminado (snd c0)])"
       "contiene s' this (pre @ post)"
       "solo_cambia s s' this (fst ` set (F this))"
       "length (listas s') = length (listas s)"
    by blast
  have "formada s' (F(this := pre @ post))"
    by (rule formada_actualizar[OF f viva r(4,5,3)]) (use r(1) in auto)
  with r(2,5) show ?thesis by blast
qed

lemma formada_copiar_en:
  assumes f: "formada s F" and viva: "this < length (listas s)" and otra: "otra < length (listas s)"
    and vacia: "F this = []" and dist: "this \<noteq> otra"
    and Lo: "leer (listas s) otra = Some Lo"
  shows "\<exists>s' nuevas.
           copiarNodos this (cabeza Lo) s [] = Some (s', avisos_insercion True (map snd (F otra))) \<and>
           formada s' (F(this := nuevas)) \<and>
           map snd nuevas = map snd (F otra) \<and>
           solo_cambia s s' this {} \<and>
           length (listas s') = length (listas s)"
proof -
  from formada_contiene[OF f viva] vacia have c: "contiene s this []" by simp
  from f otra Lo have t: "tramo (nodos s) (cabeza Lo) (F otra) None"
    by (auto simp: formada_def contiene_def split: option.splits)
  from copiarNodos_tramo[OF c t, of "[]"] obtain s' nuevas where
    r: "copiarNodos this (cabeza Lo) s [] = Some (s', avisos_insercion True (map snd (F otra)))"
       "contiene s' this nuevas" "map snd nuevas = map snd (F otra)"
       "map fst nuevas = [length (nodos s) ..< length (nodos s) + length (F otra)]"
       "solo_cambia s s' this {}" "length (listas s') = length (listas s)"
    by auto
  have sc: "solo_cambia s s' this (fst ` set (F this))" using r(5) vacia by simp
  have "formada s' (F(this := nuevas))"
  proof (rule formada_actualizar[OF f viva sc r(6,2)])
    fix a assume "a \<in> fst ` set nuevas"
    then have "a \<in> set (map fst nuevas)" by simp
    with r(4) show "a \<in> fst ` set (F this) \<or> length (nodos s) \<le> a" by simp
  qed
  with r show ?thesis by blast
qed

lemma formada_copia:
  assumes f: "formada s F" and otra: "otra < length (listas s)"
  shows "\<exists>s' nuevas.
           ListaSensor_copia otra s =
             Some (length (listas s), s', avisos_insercion True (map snd (F otra))) \<and>
           formada s' (F(length (listas s) := nuevas)) \<and>
           map snd nuevas = map snd (F otra) \<and>
           length (listas s') = Suc (length (listas s))"
proof -
  let ?B = "length (listas s)"
  let ?s0 = "s\<lparr>listas := listas s @ [Some \<lparr>cabeza = None, tamano = 0\<rparr>]\<rparr>"
  let ?F0 = "F(?B := [])"
  from f otra obtain Lo where Lo: "leer (listas s) otra = Some Lo"
    by (auto simp: formada_def contiene_def split: option.splits)
  have f0: "formada ?s0 ?F0" using f by (rule formada_ctor)
  have Lo0: "leer (listas ?s0) otra = Some Lo" using Lo otra by (simp add: leer_append1)
  from formada_copiar_en[OF f0 _ _ _ _ Lo0, of ?B] otra
  obtain s' nuevas where
    r: "copiarNodos ?B (cabeza Lo) ?s0 [] = Some (s', avisos_insercion True (map snd (?F0 otra)))"
       "formada s' (?F0(?B := nuevas))" "map snd nuevas = map snd (?F0 otra)"
       "length (listas s') = length (listas ?s0)"
    by auto
  from otra have e: "?F0 otra = F otra" by simp
  have "ListaSensor_copia otra s = Some (?B, s', avisos_insercion True (map snd (F otra)))"
    using Lo r(1) e by (simp add: ListaSensor_copia_def reservar_def)
  with r e show ?thesis by (intro exI[of _ s'] exI[of _ nuevas]) simp
qed

lemma formada_asignar:
  assumes f: "formada s F" and viva: "this < length (listas s)" and otra: "otra < length (listas s)"
    and dist: "this \<noteq> otra"
  shows "\<exists>s' nuevas.
           ListaSensor_asignar this otra s = Some (s', avisos_insercion True (map snd (F otra))) \<and>
           formada s' (F(this := nuevas)) \<and>
           map snd nuevas = map snd (F otra) \<and>
           (\<forall>a\<in>fst ` set (F this). leer (nodos s') a = None) \<and>
           length (listas s') = length (listas s)"
proof -
  from f viva obtain L where L: "leer (listas s) this = Some L"
    "tramo (nodos s) (cabeza L) (F this) None"
    by (auto simp: formada_def contiene_def split: option.splits)
  from f otra obtain Lo where Lo: "leer (listas s) otra = Some Lo"
    by (auto simp: formada_def contiene_def split: option.splits)
  from liberarNodos_tramo[OF L(2)] obtain h where
    h: "liberarNodos (nodos s) (cabeza L) = Some h" "length h = length (nodos s)"
       "\<forall>a. leer h a = (if a \<in> fst ` set (F this) then None else leer (nodos s) a)"
    by blast
  let ?s1 = "s\<lparr>nodos := h, listas := escribir this (L\<lparr>cabeza := None, tamano := 0\<rparr>) (listas s)\<rparr>"
  have sc1: "solo_cambia s ?s1 this (fst ` set (F this))"
    using h(3) by (simp add: solo_cambia_def leer_escribir)
  have c1: "contiene ?s1 this []" using viva by (simp add: contiene_def leer_escribir)
  have f1: "formada ?s1 (F(this := []))"
    by (rule formada_actualizar[OF f viva sc1 _ c1]) (simp_all add: length_escribir)
  have Lo1: "leer (listas ?s1) otra = Some Lo" using Lo dist by (simp add: leer_escribir)
  from formada_copiar_en[OF f1 _ _ _ dist Lo1] viva otra
  obtain s' nuevas where
    r: "copiarNodos this (cabeza Lo) ?s1 [] =
          Some (s', avisos_insercion True (map snd ((F(this := [])) otra)))"
       "formada s' ((F(this := []))(this := nuevas))" "map snd nuevas = map snd ((F(this := [])) otra)"
       "solo_cambia ?s1 s' this {}" "length (listas s') = length (listas ?s1)"
    by (auto simp: length_escribir)
  from dist have e: "(F(this := [])) otra = F otra" by simp
  have a: "ListaSensor_asignar this otra s = Some (s', avisos_insercion True (map snd (F otra)))"
    using dist L(1) h(1) Lo1 r(1) e by (simp add: ListaSensor_asignar_def Let_def)
  have lib: "\<forall>a\<in>fst ` set (F this). leer (nodos s') a = None"
  proof
    fix a assume a: "a \<in> fst ` set (F this)"
    from tramo_dirs_lt[OF L(2) a] have "a < length (nodos s)" .
    with h(2) r(4) have "leer (nodos s') a = leer h a" by (simp add: solo_cambia_def)
    with h(3) a show "leer (nodos s') a = None" by simp
  qed
  from a r(2,3,5) e lib show ?thesis
    by (intro exI[of _ s'] exI[of _ nuevas]) (simp add: length_escribir)
qed

lemma leer_fuera: "\<not> a < length h \<Longrightarrow> leer h a = None"
  by (simp add: leer_def)

lemma imprimir_contiene:
  "contiene s l cs \<Longrightarrow> imprimir l s = Some [if cs = [] then ListaVaciaAviso else Lista (map snd cs)]"
proof -
  assume c: "contiene s l cs"
  then obtain L where L: "leer (listas s) l = Some L" "tramo (nodos s) (cabeza L) cs None"
    by (auto simp: contiene_def split: option.splits)
  show ?thesis
  proof (cases cs)
    case Nil
    with L show ?thesis by (simp add: imprimir_def)
  next
    case (Cons x xs)
    with L obtain a where a: "cabeza L = Some a" by auto
    from recorrerDatos_tramo[OF L(2), of "[]"] L(1) a Cons show ?thesis
      by (simp add: imprimir_def)
  qed
qed

lemma obtenerTamano_contiene: "contiene s l cs \<Longrightarrow> obtenerTamano l s = Some (int (length cs))"
  by (auto simp: contiene_def obtenerTamano_def split: option.splits)

lemma estaVacia_contiene: "contiene s l cs \<Longrightarrow> estaVacia l s = Some (cs = [])"
  by (cases cs) (auto simp: contiene_def estaVacia_def split: option.splits)

lemma formada_no_afecta:
  fixes s :: "'a::{linorder,zero} memoria"
  assumes f: "formada s F" and A: "A < length (listas s)" and B: "B < length (listas s)"
    and dist: "A \<noteq> B"
  shows "no_afecta s A B"
  unfolding no_afecta_def
proof (intro conjI allI)
  have cB: "contiene s B (F B)" using f B by (rule formada_contiene)
  fix v
  from formada_insertarAlFinal[OF f A, of v] obtain s' ms where
    r: "insertarAlFinal A v s = Some (s', ms)"
       "formada s' (F(A := F A @ [(length (nodos s), v)]))" "length (listas s') = length (listas s)"
    by blast
  from formada_contiene[OF r(2), of B] B r(3) dist have "contiene s' B (F B)" by simp
  with cB have "imprimir B s' = imprimir B s" "obtenerTamano B s' = obtenerTamano B s"
    by (simp_all add: imprimir_contiene obtenerTamano_contiene)
  with r(1) show "\<exists>s' ms. insertarAlFinal A v s = Some (s', ms) \<and>
                 imprimir B s' = imprimir B s \<and> obtenerTamano B s' = obtenerTamano B s"
    by blast
next
  have cB: "contiene s B (F B)" using f B by (rule formada_contiene)
  from formada_eliminarMinimo[OF f A] obtain x s' ms cs' where
    r: "eliminarMinimo A s = Some (x, s', ms)"
       "formada s' (F(A := cs'))" "length (listas s') = length (listas s)"
    by blast
  from formada_contiene[OF r(2), of B] B r(3) dist have "contiene s' B (F B)" by simp
  with cB have "imprimir B s' = imprimir B s" "obtenerTamano B s' = obtenerTamano B s"
    by (simp_all add: imprimir_contiene obtenerTamano_contiene)
  with r(1) show "\<exists>x s' ms. eliminarMinimo A s = Some (x, s', ms) \<and>
                 imprimir B s' = imprimir B s \<and> obtenerTamano B s' = obtenerTamano B s"
    by blast
qed

lemma ejecutar_op_formada:
  fixes s :: "'a::{linorder,zero} memoria"
  assumes f: "formada s F" and e: "ejecutar_op p s = Some s'"
  shows "\<exists>F'. formada s' F'"
proof (cases p)
  case Construir
  with e formada_ctor[OF f] show ?thesis
    by (auto simp: ListaSensor_ctor_def reservar_def)
next
  case (Insertar l v)
  show ?thesis
  proof (cases "l < length (listas s)")
    case True
    from formada_insertarAlFinal[OF f True, of v] e Insertar show ?thesis by auto
  next
    case False
    then have "insertarAlFinal l v s = None" by (simp add: insertarAlFinal_def leer_fuera)
    with e Insertar show ?thesis by simp
  qed
next
  case (EliminarMin l)
  show ?thesis
  proof (cases "l < length (listas s)")
    case True
    from formada_eliminarMinimo[OF f True] e EliminarMin show ?thesis by auto
  next
    case False
    then have "eliminarMinimo l s = None" by (simp add: eliminarMinimo_def leer_fuera)
    with e EliminarMin show ?thesis by simp
  qed
next
  case (Copiar l)
  show ?thesis
  proof (cases "l < length (listas s)")
    case True
    from formada_copia[OF f True] e Copiar show ?thesis by auto
  next
    case False
    then have "ListaSensor_copia l s = None" by (simp add: ListaSensor_copia_def leer_fuera)
    with e Copiar show ?thesis by simp
  qed
next
  case (Asignar l l')
  show ?thesis
  proof (cases "l = l'")
    case True
    with e Asignar f show ?thesis by (auto simp: ListaSensor_asignar_def)
  next
    case False
    show ?thesis
    proof (cases "l < length (listas s) \<and> l' < length (listas s)")
      case True
      from formada_asignar[OF f _ _ False] True e Asignar show ?thesis by auto
    next
      case fuera: False
      have "ListaSensor_asignar l l' s = None"
      proof (cases "l < length (listas s)")
        case True
        with fuera have "leer (listas s) l' = None" by (simp add: leer_fuera)
        with False show ?thesis
          by (auto simp: ListaSensor_asignar_def Let_def leer_escribir split: option.splits)
      next
        case False
        then show ?thesis using \<open>l \<noteq> l'\<close> by (simp add: ListaSensor_asignar_def leer_fuera)
      qed
      with e Asignar show ?thesis by simp
    qed
  qed
qed

lemma ejecutar_formada:
  fixes s :: "'a::{linorder,zero} memoria"
  shows "formada s F \<Longrightarrow> ejecutar ps s = Some s' \<Longrightarrow> \<exists>F'. formada s' F'"
proof (induction ps arbitrary: s F)
  case Nil
  then show ?case by auto
next
  case (Cons p ps)
  from Cons.prems(2) obtain s1 where s1: "ejecutar_op p s = Some s1" "ejecutar ps s1 = Some s'"
    by (auto split: option.splits)
  from ejecutar_op_formada[OF Cons.prems(1) s1(1)] obtain F1 where "formada s1 F1" by blast
  from Cons.IH[OF this s1(2)] show ?case .
qed

lemma ejecutar_op_definida:
  fixes s :: "'a::{linorder,zero} memoria"
  assumes f: "formada s F" and r: "\<forall>l\<in>set (referencias p). l < length (listas s)"
  shows "\<exists>s'. ejecutar_op p s = Some s'"
proof (cases p)
  case Construir
  then show ?thesis by simp
next
  case (Insertar l v)
  with r have "l < length (listas s)" by simp
  from formada_insertarAlFinal[OF f this, of v] Insertar show ?thesis by auto
next
  case (EliminarMin l)
  with r have "l < length (listas s)" by simp
  from formada_eliminarMinimo[OF f this] EliminarMin show ?thesis by auto
next
  case (Copiar l)
  with r have "l < length (listas s)" by simp
  from formada_copia[OF f this] Copiar show ?thesis by auto
next
  case (Asignar l l')
  with r have l: "l < length (listas s)" "l' < length (listas s)" by simp_all
  show ?thesis
  proof (cases "l = l'")
    case True
    with Asignar show ?thesis by (simp add: ListaSensor_asignar_def)
  next
    case False
    from formada_asignar[OF f l False] Asignar show ?thesis by auto
  qed
qed

lemma ejecutar_operaciones_ejemplo:
  "ejecutar operaciones_ejemplo memoria_vacia = Some ejemplo_dos_listas"
  by (simp add: operaciones_ejemplo_def memoria_vacia_def ejemplo_dos_listas_def
      ListaSensor_ctor_def reservar_def insertarAlFinal_def leer_def escribir_def ultimoNodo_paso)

lemma formada_copia_de:
  fixes s :: "'a::{linorder,zero} memoria"
  assumes f: "formada s F" and A: "A < length (listas s)" and B: "B < length (listas s)"
    and dist: "B \<noteq> A" and v: "map snd (F B) = map snd (F A)"
  shows "copia_de s A B (F A)"
proof -
  have cA: "contiene s A (F A)" using f A by (rule formada_contiene)
  have cB: "contiene s B (F B)" using f B by (rule formada_contiene)
  from f A B dist have dj: "fst ` set (F B) \<inter> fst ` set (F A) = {}" by (simp add: formada_def)
  have i: "imprimir B s = imprimir A s"
    using v by (simp add: imprimir_contiene[OF cA] imprimir_contiene[OF cB]) (metis map_is_Nil_conv)
  have t: "obtenerTamano B s = obtenerTamano A s"
    using arg_cong[OF v, of length]
    by (simp add: obtenerTamano_contiene[OF cA] obtenerTamano_contiene[OF cB])
  have n1: "no_afecta s A B" using f A B dist[symmetric] by (rule formada_no_afecta)
  have n2: "no_afecta s B A" using f B A dist by (rule formada_no_afecta)
  from cA cB v dj have "\<exists>cB. contiene s B cB \<and> map snd cB = map snd (F A) \<and>
      fst ` set cB \<inter> fst ` set (F A) = {}" by blast
  with dist cA i t n1 n2 show ?thesis unfolding copia_de_def by blast
qed


section \<open>The list: queries on an empty list, removal of the minimum\<close>

text \<open>
  Claim C7. On an empty list (\<^verbatim>\<open>cabeza == nullptr\<close>, counter 0), \<^verbatim>\<open>calcularPromedio\<close>
  returns the zero of the element type and \<^verbatim>\<open>eliminarMinimo\<close> returns the zero of the element
  type; each writes one warning line; both return (no undefined behaviour), the memory
  after \<^verbatim>\<open>eliminarMinimo\<close> is the memory before it, and the size is 0.
\<close>

theorem empty_list_queries:
  fixes s :: "'a::{ord,zero} memoria"
  assumes "contiene s this []"
  shows "calcularPromedio ar this s = Some (0, [ListaVaciaRetornando0]) \<and>
         eliminarMinimo this s = Some (0, s, [NoHayElementos]) \<and>
         obtenerTamano this s = Some 0 \<and> estaVacia this s = Some True"
  using assms
  by (auto simp: contiene_def calcularPromedio_def eliminarMinimo_def obtenerTamano_def
      estaVacia_def split: option.splits)

theorem empty_list_queries_witness:
  "contiene ejemplo_vacia 0 [] \<and>
   calcularPromedio arit_int 0 ejemplo_vacia = Some (0, [ListaVaciaRetornando0]) \<and>
   eliminarMinimo 0 ejemplo_vacia = Some (0, ejemplo_vacia, [NoHayElementos]) \<and>
   obtenerTamano 0 ejemplo_vacia = Some 0 \<and> estaVacia 0 ejemplo_vacia = Some True"
proof -
  have h: "contiene ejemplo_vacia 0 []"
    by (simp add: ejemplo_vacia_def contiene_def leer_def)
  from empty_list_queries[OF h, of arit_int] h show ?thesis by simp
qed




section \<open>The list: copies\<close>

text \<open>
  Claim C5. In every memory reached by the public operations, for every list \<open>A\<close>: the copy
  constructor returns a new list object \<open>B\<close> that is a deep copy of \<open>A\<close> (\<open>copia_de\<close>: the same
  values in the same order, in nodes of its own, and appending to or removing the minimum of
  either list leaves the size and the printed contents of the other unchanged); the
  assignment \<^verbatim>\<open>B = A\<close> to another list \<open>B\<close> frees every node \<open>B\<close> held and leaves \<open>B\<close> a deep copy
  of \<open>A\<close>; the assignment \<^verbatim>\<open>A = A\<close> changes nothing.
\<close>

theorem copies_are_deep_and_independent:
  fixes s :: "'a::{linorder,zero} memoria"
  assumes "ejecutar ps memoria_vacia = Some s" and "contiene s A cA"
  shows "(\<exists>B s' ms. ListaSensor_copia A s = Some (B, s', ms) \<and> leer (listas s) B = None \<and>
                     copia_de s' A B cA) \<and>
         (\<forall>B cB. B \<noteq> A \<and> contiene s B cB \<longrightarrow>
            (\<exists>s' ms. ListaSensor_asignar B A s = Some (s', ms) \<and>
                      (\<forall>a\<in>fst ` set cB. leer (nodos s') a = None) \<and>
                      copia_de s' A B cA)) \<and>
         ListaSensor_asignar A A s = Some (s, [])"
proof -
  from ejecutar_formada[OF formada_vacia assms(1)] obtain F where f: "formada s F" by blast
  from assms(2) have A: "A < length (listas s)" by (rule contiene_viva)
  from contiene_unico[OF assms(2) formada_contiene[OF f A]] have FA: "F A = cA" by simp
  have copia: "\<exists>B s' ms. ListaSensor_copia A s = Some (B, s', ms) \<and> leer (listas s) B = None \<and>
                     copia_de s' A B cA"
  proof -
    let ?B = "length (listas s)"
    from formada_copia[OF f A] obtain s' nuevas where
      r: "ListaSensor_copia A s = Some (?B, s', avisos_insercion True (map snd (F A)))"
         "formada s' (F(?B := nuevas))" "map snd nuevas = map snd (F A)"
         "length (listas s') = Suc (length (listas s))"
      by blast
    have "copia_de s' A ?B ((F(?B := nuevas)) A)"
      by (rule formada_copia_de[OF r(2)]) (use A r(3,4) in auto)
    with A FA have "copia_de s' A ?B cA" by simp
    with r(1) show ?thesis by (auto simp: leer_length)
  qed
  have asigna: "\<forall>B cB. B \<noteq> A \<and> contiene s B cB \<longrightarrow>
            (\<exists>s' ms. ListaSensor_asignar B A s = Some (s', ms) \<and>
                      (\<forall>a\<in>fst ` set cB. leer (nodos s') a = None) \<and>
                      copia_de s' A B cA)"
  proof (intro allI impI)
    fix B cB assume h: "B \<noteq> A \<and> contiene s B cB"
    then have B: "B < length (listas s)" by (auto dest: contiene_viva)
    from h contiene_unico[OF _ formada_contiene[OF f B]] have FB: "F B = cB" by auto
    from h have dist: "B \<noteq> A" by simp
    from formada_asignar[OF f B A dist] obtain s' nuevas where
      r: "ListaSensor_asignar B A s = Some (s', avisos_insercion True (map snd (F A)))"
         "formada s' (F(B := nuevas))" "map snd nuevas = map snd (F A)"
         "\<forall>a\<in>fst ` set (F B). leer (nodos s') a = None"
         "length (listas s') = length (listas s)"
      by blast
    have "copia_de s' A B ((F(B := nuevas)) A)"
      by (rule formada_copia_de[OF r(2)]) (use A B dist r(3,5) in auto)
    with dist FA have "copia_de s' A B cA" by simp
    with r(1,4) FB show "\<exists>s' ms. ListaSensor_asignar B A s = Some (s', ms) \<and>
                      (\<forall>a\<in>fst ` set cB. leer (nodos s') a = None) \<and> copia_de s' A B cA"
      by blast
  qed
  have "ListaSensor_asignar A A s = Some (s, [])" by (simp add: ListaSensor_asignar_def)
  with copia asigna show ?thesis by blast
qed

theorem copies_are_deep_and_independent_witness:
  "ejecutar operaciones_ejemplo memoria_vacia = Some ejemplo_dos_listas \<and>
   contiene ejemplo_dos_listas 0 celdas_dos \<and>
   (\<exists>B s' ms. ListaSensor_copia 0 ejemplo_dos_listas = Some (B, s', ms) \<and>
               leer (listas ejemplo_dos_listas) B = None \<and> copia_de s' 0 B celdas_dos) \<and>
   (1 :: nat) \<noteq> 0 \<and> contiene ejemplo_dos_listas 1 [(2, 7)] \<and>
   (\<exists>s' ms. ListaSensor_asignar 1 0 ejemplo_dos_listas = Some (s', ms) \<and>
             (\<forall>a\<in>fst ` set [(2 :: nat, 7 :: int)]. leer (nodos s') a = None) \<and>
             copia_de s' 0 1 celdas_dos) \<and>
   ListaSensor_asignar 0 0 ejemplo_dos_listas = Some (ejemplo_dos_listas, [])"
proof -
  have hA: "contiene ejemplo_dos_listas 0 celdas_dos"
    by (simp add: ejemplo_dos_listas_def celdas_dos_def contiene_def leer_def)
  have hB: "contiene ejemplo_dos_listas 1 [(2, 7)]"
    by (simp add: ejemplo_dos_listas_def contiene_def leer_def)
  have ne: "(1 :: nat) \<noteq> 0" by simp
  note t = copies_are_deep_and_independent[OF ejecutar_operaciones_ejemplo hA]
  note t1 = t[THEN conjunct1]
  note t2 = t[THEN conjunct2, THEN conjunct1, THEN spec, THEN spec, THEN mp, OF conjI[OF ne hB]]
  note t3 = t[THEN conjunct2, THEN conjunct2]
  show ?thesis
    by (rule conjI[OF ejecutar_operaciones_ejemplo conjI[OF hA conjI[OF t1 conjI[OF ne
          conjI[OF hB conjI[OF t2 t3]]]]]])
qed

section \<open>The list: the counter\<close>

text \<open>
  Claim C10. In every memory reached from the empty one by a sequence of constructions,
  insertions, removals of the minimum, copies and assignments, every list object has a chain
  from \<^verbatim>\<open>cabeza\<close> that ends in \<^verbatim>\<open>nullptr\<close> and whose number of nodes is the counter; so
  \<^verbatim>\<open>estaVacia\<close> answers true exactly when \<^verbatim>\<open>obtenerTamano\<close> answers 0. From such a memory every
  operation on existing lists returns.
\<close>

theorem size_counter_invariant:
  fixes s :: "'a::{linorder,zero} memoria"
  assumes "ejecutar ps memoria_vacia = Some s" and "leer (listas s) l = Some L"
  shows "(\<exists>cs. tramo (nodos s) (cabeza L) cs None \<and> tamano L = int (length cs)) \<and>
         (estaVacia l s = Some True \<longleftrightarrow> obtenerTamano l s = Some 0) \<and>
         (\<forall>p. (\<forall>r\<in>set (referencias p). r < length (listas s)) \<longrightarrow> ejecutar_op p s \<noteq> None)"
proof -
  from ejecutar_formada[OF formada_vacia assms(1)] obtain F where f: "formada s F" by blast
  from assms(2) have l: "l < length (listas s)" by (rule leer_Some_lt)
  from formada_contiene[OF f l] have c: "contiene s l (F l)" .
  with assms(2) have 1: "\<exists>cs. tramo (nodos s) (cabeza L) cs None \<and> tamano L = int (length cs)"
    by (auto simp: contiene_def)
  have 2: "estaVacia l s = Some True \<longleftrightarrow> obtenerTamano l s = Some 0"
    by (simp add: estaVacia_contiene[OF c] obtenerTamano_contiene[OF c])
  have 3: "\<forall>p. (\<forall>r\<in>set (referencias p). r < length (listas s)) \<longrightarrow> ejecutar_op p s \<noteq> None"
    using ejecutar_op_definida[OF f] by fastforce
  from 1 2 3 show ?thesis by blast
qed

theorem size_counter_invariant_witness:
  "ejecutar operaciones_ejemplo memoria_vacia = Some ejemplo_dos_listas \<and>
   leer (listas ejemplo_dos_listas) 0 = Some \<lparr>cabeza = Some 0, tamano = 2\<rparr> \<and>
   (\<exists>cs. tramo (nodos ejemplo_dos_listas) (cabeza \<lparr>cabeza = Some 0, tamano = 2\<rparr>) cs None \<and>
         tamano \<lparr>cabeza = Some 0, tamano = 2\<rparr> = int (length cs)) \<and>
   (estaVacia 0 ejemplo_dos_listas = Some True \<longleftrightarrow> obtenerTamano 0 ejemplo_dos_listas = Some 0) \<and>
   ejecutar_op (Asignar 1 0) ejemplo_dos_listas \<noteq> None"
proof -
  have h: "leer (listas ejemplo_dos_listas) 0 = Some \<lparr>cabeza = Some 0, tamano = 2\<rparr>"
    by (simp add: ejemplo_dos_listas_def leer_def)
  have r: "\<forall>r\<in>set (referencias (Asignar 1 0 :: int operacion)). r < length (listas ejemplo_dos_listas)"
    by (simp add: ejemplo_dos_listas_def)
  note t = size_counter_invariant[OF ejecutar_operaciones_ejemplo h]
  note t1 = t[THEN conjunct1]
  note t2 = t[THEN conjunct2, THEN conjunct1]
  note t3 = t[THEN conjunct2, THEN conjunct2, THEN spec, THEN mp, OF r]
  show ?thesis
    by (rule conjI[OF ejecutar_operaciones_ejemplo conjI[OF h conjI[OF t1 conjI[OF t2 t3]]]])
qed

section \<open>The sensors\<close>






















section \<open>The registry\<close>

lemma buscarDesde_tramo:
  "tramo h p cs None \<Longrightarrow>
   buscarDesde h ident p = Some (find (\<lambda>x. nombre x = ident) (map snd cs))"
proof (induction cs arbitrary: p)
  case Nil
  then show ?case by (subst buscarDesde.simps) simp
next
  case (Cons c cs)
  then show ?case by (subst buscarDesde.simps) (auto split: option.splits)
qed

lemma buscarSensor_registro:
  "registro s cs \<Longrightarrow> buscarSensor ident s = Some (find (\<lambda>x. nombre x = ident) (map snd cs))"
  by (simp add: registro_def buscarSensor_def buscarDesde_tramo)

lemma agregarSensor_registro:
  assumes "registro s cs"
  shows "\<exists>s'. agregarSensor sensor s =
                 Some (s', [if cs = [] then PrimerSensorRegistrado (nombre sensor)
                            else SensorAgregado (nombre sensor)]) \<and>
              registro s' (cs @ [(length (nodosSensor s), sensor)]) \<and>
              obtenerCantidad s' = obtenerCantidad s + 1 \<and>
              temperaturas s' = temperaturas s \<and> presiones s' = presiones s"
proof -
  from assms have t: "tramo (nodosSensor s) (primero (gestor s)) cs None"
    and n: "cantidad (gestor s) = int (length cs)"
    by (simp_all add: registro_def)
  let ?h1 = "nodosSensor s @ [Some \<lparr>dato = sensor, siguiente = None\<rparr>]"
  show ?thesis
  proof (cases cs)
    case Nil
    let ?s' = "s\<lparr>nodosSensor := ?h1,
                 gestor := (gestor s)\<lparr>primero := Some (length (nodosSensor s)),
                                       cantidad := cantidad (gestor s) + 1\<rparr>\<rparr>"
    from Nil t n show ?thesis
      by (intro exI[of _ ?s'])
         (simp add: agregarSensor_def reservar_def registro_def leer_append1 obtenerCantidad_def)
  next
    case (Cons x xs)
    with t obtain c where c: "primero (gestor s) = Some c" by auto
    from t c have t1: "tramo ?h1 (Some c) cs None" by (simp add: tramo_reservar)
    then have u: "ultimoNodo ?h1 c = Some (fst (last cs))" by (rule ultimoNodo_tramo)
    from Cons have ne: "cs \<noteq> []" by simp
    then have "last cs \<in> set cs" by simp
    then have "fst (last cs) \<in> fst ` set cs" by simp
    with t have lt: "fst (last cs) < length (nodosSensor s)" by (rule tramo_dirs_lt)
    from ne have "butlast cs @ [last cs] = cs" by simp
    with t have "\<exists>r. tramo (nodosSensor s) (primero (gestor s)) (butlast cs) r \<and>
                     tramo (nodosSensor s) r [last cs] None"
      by (metis tramo_append)
    then obtain nl where nl: "leer (nodosSensor s) (fst (last cs)) = Some nl"
      by (auto split: option.splits)
    with lt have n1: "leer ?h1 (fst (last cs)) = Some nl" by (simp add: leer_append1)
    let ?s' = "s\<lparr>nodosSensor :=
                   escribir (fst (last cs)) (nl\<lparr>siguiente := Some (length (nodosSensor s))\<rparr>) ?h1,
                 gestor := (gestor s)\<lparr>cantidad := cantidad (gestor s) + 1\<rparr>\<rparr>"
    from tramo_enganchar[OF t ne nl, of sensor]
    have t2: "tramo (escribir (fst (last cs)) (nl\<lparr>siguiente := Some (length (nodosSensor s))\<rparr>) ?h1)
               (primero (gestor s)) (cs @ [(length (nodosSensor s), sensor)]) None" .
    from c u n1 t2 n ne show ?thesis
      by (intro exI[of _ ?s'])
         (simp add: agregarSensor_def reservar_def registro_def obtenerCantidad_def)
  qed
qed

lemma registrar_demo:
  "registrar_sensores_demo sistema_inicial = Some (sistema_demo, sensor_temp, sensor_presion)"
  by code_simp

lemma buscar_demo:
  "buscarSensor ''T-001'' sistema_demo = Some (Some sensor_temp) \<and>
   buscarSensor ''P-105'' sistema_demo = Some (Some sensor_presion) \<and>
   buscarSensor ''X-999'' sistema_demo = Some None \<and>
   obtenerCantidad sistema_demo = 2"
  by code_simp

text \<open>
  Claim C9. \<^verbatim>\<open>agregarSensor\<close> links the sensor after the last node of the registry and adds 1
  to \<^verbatim>\<open>cantidad\<close>, whatever the name of the sensor (no check against the names present);
  \<^verbatim>\<open>buscarSensor\<close> returns the first sensor of the chain whose name equals the identifier, and
  \<^verbatim>\<open>nullptr\<close> when there is none. After the registration of \<^verbatim>\<open>T-001\<close> and \<^verbatim>\<open>P-105\<close> each is
  found under its name and \<^verbatim>\<open>X-999\<close> is not found.
\<close>

theorem registry_insert_and_find:
  assumes "registro s cs"
  shows "(\<exists>s'. agregarSensor sensor s =
                  Some (s', [if cs = [] then PrimerSensorRegistrado (nombre sensor)
                             else SensorAgregado (nombre sensor)]) \<and>
               registro s' (cs @ [(length (nodosSensor s), sensor)]) \<and>
               obtenerCantidad s' = obtenerCantidad s + 1 \<and>
               temperaturas s' = temperaturas s \<and> presiones s' = presiones s) \<and>
         buscarSensor ident s = Some (find (\<lambda>x. nombre x = ident) (map snd cs)) \<and>
         registrar_sensores_demo sistema_inicial = Some (sistema_demo, sensor_temp, sensor_presion) \<and>
         nombre sensor_temp = ''T-001'' \<and> nombre sensor_presion = ''P-105'' \<and>
         buscarSensor ''T-001'' sistema_demo = Some (Some sensor_temp) \<and>
         buscarSensor ''P-105'' sistema_demo = Some (Some sensor_presion) \<and>
         buscarSensor ''X-999'' sistema_demo = Some None \<and>
         obtenerCantidad sistema_demo = 2"
proof -
  have n: "nombre sensor_temp = ''T-001''" "nombre sensor_presion = ''P-105''"
    by (simp_all add: sensor_temp_def sensor_presion_def)
  from agregarSensor_registro[OF assms, of sensor] buscarSensor_registro[OF assms, of ident]
    registrar_demo n buscar_demo
  show ?thesis by (intro conjI) simp_all
qed

theorem registry_insert_and_find_witness:
  "registro sistema_demo celdas_demo \<and>
   (\<exists>s'. agregarSensor sensor_repetido sistema_demo =
            Some (s', [if celdas_demo = [] then PrimerSensorRegistrado (nombre sensor_repetido)
                       else SensorAgregado (nombre sensor_repetido)]) \<and>
          registro s' (celdas_demo @ [(length (nodosSensor sistema_demo), sensor_repetido)]) \<and>
          obtenerCantidad s' = obtenerCantidad sistema_demo + 1 \<and>
          temperaturas s' = temperaturas sistema_demo \<and> presiones s' = presiones sistema_demo) \<and>
   buscarSensor ''T-001'' sistema_demo =
     Some (find (\<lambda>x. nombre x = ''T-001'') (map snd celdas_demo)) \<and>
   find (\<lambda>x. nombre x = ''T-001'') (map snd (celdas_demo @ [(2, sensor_repetido)])) = Some sensor_temp"
proof -
  have h: "registro sistema_demo celdas_demo"
    by (simp add: registro_def sistema_demo_def celdas_demo_def leer_def)
  note t = registry_insert_and_find[OF h, of sensor_repetido "''T-001''"]
  have f: "find (\<lambda>x. nombre x = ''T-001'') (map snd (celdas_demo @ [(2, sensor_repetido)])) =
           Some sensor_temp"
    by (simp add: celdas_demo_def sensor_temp_def)
  from h t[THEN conjunct1] t[THEN conjunct2, THEN conjunct1] f show ?thesis by (intro conjI)
qed

section \<open>The line framer\<close>

lemma takeWhile_corte: "\<not> P y \<Longrightarrow> takeWhile P (xs @ y # ys) = takeWhile P xs"
  by (induction xs) auto

lemma c_str_hasta:
  assumes "n < length xs" and "xs ! n = NUL"
  shows "c_str xs = c_str (take n xs)"
proof -
  have "xs = take n xs @ xs ! n # drop (Suc n) xs" using assms(1) by (simp add: id_take_nth_drop)
  then have "c_str xs = takeWhile (\<lambda>c. c \<noteq> NUL) (take n xs @ NUL # drop (Suc n) xs)"
    using assms(2) by (simp add: c_str_def)
  then show ?thesis by (simp add: takeWhile_corte c_str_def)
qed

lemma c_str_sin_NUL: "NUL \<notin> set xs \<Longrightarrow> c_str xs = xs"
  by (auto simp: c_str_def takeWhile_eq_all_conv)

lemma c_str_length: "length (c_str xs) \<le> length xs"
  by (simp add: c_str_def length_takeWhile_le)

lemma c_str_strncpy:
  assumes "length (c_str src) < n"
  shows "c_str (strncpy src n) = c_str src \<and> length (strncpy src n) = n"
proof -
  from assms obtain k where k: "n - length (c_str src) = Suc k" by (cases "n - length (c_str src)") auto
  have "takeWhile (\<lambda>c. c \<noteq> NUL) (c_str src @ NUL # replicate k NUL) =
        takeWhile (\<lambda>c. c \<noteq> NUL) (c_str src)"
    by (simp add: takeWhile_corte)
  also have "\<dots> = c_str src" by (simp add: c_str_def)
  finally have "takeWhile (\<lambda>c. c \<noteq> NUL) (c_str src @ NUL # replicate k NUL) = c_str src" .
  moreover have "strncpy src n = c_str src @ NUL # replicate k NUL"
    using assms k by (simp add: strncpy_def)
  ultimately have "c_str (strncpy src n) = c_str src" by (simp add: c_str_def)
  moreover from assms have "length (strncpy src n) = n" by (simp add: strncpy_def)
  ultimately show ?thesis by simp
qed

lemma pendiente_length: "serial_ok st \<Longrightarrow> length (pendiente st) = posicion st"
  by (simp add: serial_ok_def pendiente_def)

lemma leerLineaSerial_nada: "leerLineaSerial None n st = (False, None, st)"
  by (simp add: leerLineaSerial_def)

lemma leerLineaSerial_fin_vacio:
  assumes "serial_ok st" and "c = LF \<or> c = CR" and "pendiente st = []"
  shows "leerLineaSerial (Some c) 256 st = (False, None, st)"
proof -
  from pendiente_length[OF assms(1)] assms(3) have "posicion st = 0" by simp
  with assms(2) show ?thesis by (auto simp: leerLineaSerial_def LF_def CR_def)
qed

lemma leerLineaSerial_fin_linea:
  assumes ok: "serial_ok st" and c: "c = LF \<or> c = CR" and ne: "pendiente st \<noteq> []"
  shows "\<exists>buffer st'. leerLineaSerial (Some c) 256 st = (True, Some buffer, st') \<and>
           length buffer = 256 \<and> c_str buffer = c_str (pendiente st) \<and>
           pendiente st' = [] \<and> serial_ok st'"
proof -
  let ?b = "(bufferInterno st)[posicion st := NUL]"
  let ?st' = "\<lparr>bufferInterno = ?b, posicion = 0\<rparr>"
  from ne have "0 < length (pendiente st)" by simp
  with pendiente_length[OF ok] have pos: "0 < posicion st" by simp
  from ok have lt: "posicion st < length ?b" by (simp add: serial_ok_def)
  then have "?b ! posicion st = NUL" by simp
  from c_str_hasta[OF lt this] have cs: "c_str ?b = c_str (pendiente st)"
    by (simp add: pendiente_def)
  have "length (c_str (pendiente st)) \<le> length (pendiente st)" by (rule c_str_length)
  with pendiente_length[OF ok] ok have "length (c_str ?b) < 256" by (simp add: cs serial_ok_def)
  from c_str_strncpy[OF this] cs
  have s: "c_str (strncpy ?b 256) = c_str (pendiente st)" "length (strncpy ?b 256) = 256" by simp_all
  have e: "leerLineaSerial (Some c) 256 st = (True, Some (strncpy ?b 256), ?st')"
    using c pos by (auto simp: leerLineaSerial_def LF_def CR_def Let_def)
  have "pendiente ?st' = []" "serial_ok ?st'" using ok by (simp_all add: pendiente_def serial_ok_def)
  with e s show ?thesis by (intro exI[of _ "strncpy ?b 256"] exI[of _ ?st']) simp
qed

lemma leerLineaSerial_agrega:
  assumes ok: "serial_ok st" and c: "c \<noteq> LF" "c \<noteq> CR" and lt: "length (pendiente st) < 255"
  shows "\<exists>st'. leerLineaSerial (Some c) 256 st = (False, None, st') \<and>
           pendiente st' = pendiente st @ [c] \<and> serial_ok st'"
proof -
  let ?st' = "\<lparr>bufferInterno = (bufferInterno st)[posicion st := c], posicion = posicion st + 1\<rparr>"
  from pendiente_length[OF ok] lt have pos: "posicion st < 255" by simp
  with c have e: "leerLineaSerial (Some c) 256 st = (False, None, ?st')"
    by (simp add: leerLineaSerial_def LF_def CR_def)
  from pos ok have "pendiente ?st' = pendiente st @ [c]"
    by (simp add: pendiente_def serial_ok_def take_Suc_conv_app_nth)
  moreover from pos ok have "serial_ok ?st'" by (simp add: serial_ok_def)
  ultimately show ?thesis using e by (intro exI[of _ ?st']) simp
qed

lemma leerLineaSerial_lleno:
  assumes ok: "serial_ok st" and c: "c \<noteq> LF" "c \<noteq> CR" and lleno: "\<not> length (pendiente st) < 255"
  shows "leerLineaSerial (Some c) 256 st = (False, None, st)"
  using pendiente_length[OF ok] c lleno by (simp add: leerLineaSerial_def LF_def CR_def)

lemma leerLineaSerial_paso:
  assumes ok: "serial_ok st"
  shows "case leerLineaSerial leido 256 st of
           (completa, escrito, st') \<Rightarrow>
             serial_ok st' \<and>
             (case escrito of None \<Rightarrow> \<not> completa | Some buffer \<Rightarrow> length (c_str buffer) \<le> 255)"
proof (cases leido)
  case None
  with ok show ?thesis by (auto simp: leerLineaSerial_def)
next
  case (Some c)
  show ?thesis
  proof (cases "c = LF \<or> c = CR")
    case True
    show ?thesis
    proof (cases "pendiente st = []")
      case True
      from leerLineaSerial_fin_vacio[OF ok \<open>c = LF \<or> c = CR\<close> True] Some ok show ?thesis by simp
    next
      case False
      from leerLineaSerial_fin_linea[OF ok True False] obtain buffer st' where
        r: "leerLineaSerial (Some c) 256 st = (True, Some buffer, st')"
           "c_str buffer = c_str (pendiente st)" "serial_ok st'"
        by blast
      have "length (c_str (pendiente st)) \<le> length (pendiente st)" by (rule c_str_length)
      with pendiente_length[OF ok] ok have "length (c_str buffer) \<le> 255"
        by (simp add: r(2) serial_ok_def)
      with r Some show ?thesis by simp
    qed
  next
    case False
    then have c: "c \<noteq> LF" "c \<noteq> CR" by simp_all
    show ?thesis
    proof (cases "length (pendiente st) < 255")
      case True
      from leerLineaSerial_agrega[OF ok c True] Some show ?thesis by auto
    next
      case False
      from leerLineaSerial_lleno[OF ok c False] Some ok show ?thesis by simp
    qed
  qed
qed

lemma lineasRecibidas_cota:
  "serial_ok st \<Longrightarrow>
   (\<forall>l\<in>set (fst (lineasRecibidas rs st)). length l \<le> 255) \<and> serial_ok (snd (lineasRecibidas rs st))"
proof (induction rs arbitrary: st)
  case Nil
  then show ?case by simp
next
  case (Cons leido rs)
  obtain completa escrito st' where e: "leerLineaSerial leido 256 st = (completa, escrito, st')"
    by (cases "leerLineaSerial leido 256 st") auto
  with leerLineaSerial_paso[OF Cons.prems, of leido] have
    r: "leerLineaSerial leido 256 st = (completa, escrito, st')" "serial_ok st'"
       "case escrito of None \<Rightarrow> \<not> completa | Some buffer \<Rightarrow> length (c_str buffer) \<le> 255"
    by simp_all
  from Cons.IH[OF r(2)] r(1,3) show ?case
    by (auto split: prod.splits option.splits)
qed

lemma serial_inicial_ok: "serial_ok serial_inicial \<and> pendiente serial_inicial = []"
  by (simp add: serial_ok_def serial_inicial_def pendiente_def)

text \<open>
  Claim C6, as amended. In every state of the framer, with the 256-byte buffer of \<^verbatim>\<open>main\<close>:
  a failed \<^verbatim>\<open>read\<close> changes nothing; a terminator with nothing pending is ignored; a
  terminator with bytes pending returns \<^verbatim>\<open>true\<close>, writes the caller's buffer so that its C
  string is the pending bytes up to their first NUL (all of them when none is NUL), and
  leaves nothing pending; another byte is appended while fewer than 255 are pending and
  dropped otherwise; so at most 255 bytes are pending and no line read from any sequence
  of bytes is longer than 255.
\<close>

theorem line_framer_steps:
  assumes "serial_ok st"
  shows "leerLineaSerial None 256 st = (False, None, st) \<and>
         ((c = LF \<or> c = CR) \<and> pendiente st = [] \<longrightarrow>
            leerLineaSerial (Some c) 256 st = (False, None, st)) \<and>
         ((c = LF \<or> c = CR) \<and> pendiente st \<noteq> [] \<longrightarrow>
            (\<exists>buffer st'. leerLineaSerial (Some c) 256 st = (True, Some buffer, st') \<and>
               length buffer = 256 \<and> c_str buffer = c_str (pendiente st) \<and>
               (NUL \<notin> set (pendiente st) \<longrightarrow> c_str buffer = pendiente st) \<and>
               pendiente st' = [] \<and> serial_ok st')) \<and>
         (c \<noteq> LF \<and> c \<noteq> CR \<and> length (pendiente st) < 255 \<longrightarrow>
            (\<exists>st'. leerLineaSerial (Some c) 256 st = (False, None, st') \<and>
               pendiente st' = pendiente st @ [c] \<and> serial_ok st')) \<and>
         (c \<noteq> LF \<and> c \<noteq> CR \<and> \<not> length (pendiente st) < 255 \<longrightarrow>
            leerLineaSerial (Some c) 256 st = (False, None, st)) \<and>
         length (pendiente st) \<le> 255 \<and>
         serial_ok serial_inicial \<and> pendiente serial_inicial = [] \<and>
         (\<forall>l\<in>set (fst (lineasRecibidas rs serial_inicial)). length l \<le> 255)"
proof -
  have 1: "leerLineaSerial None 256 st = (False, None, st)" by (rule leerLineaSerial_nada)
  have 2: "(c = LF \<or> c = CR) \<and> pendiente st = [] \<longrightarrow>
            leerLineaSerial (Some c) 256 st = (False, None, st)"
    using leerLineaSerial_fin_vacio[OF assms] by blast
  have 3: "(c = LF \<or> c = CR) \<and> pendiente st \<noteq> [] \<longrightarrow>
            (\<exists>buffer st'. leerLineaSerial (Some c) 256 st = (True, Some buffer, st') \<and>
               length buffer = 256 \<and> c_str buffer = c_str (pendiente st) \<and>
               (NUL \<notin> set (pendiente st) \<longrightarrow> c_str buffer = pendiente st) \<and>
               pendiente st' = [] \<and> serial_ok st')"
  proof
    assume h: "(c = LF \<or> c = CR) \<and> pendiente st \<noteq> []"
    from leerLineaSerial_fin_linea[OF assms h[THEN conjunct1] h[THEN conjunct2]]
    obtain buffer st' where
      r: "leerLineaSerial (Some c) 256 st = (True, Some buffer, st')" "length buffer = 256"
         "c_str buffer = c_str (pendiente st)" "pendiente st' = []" "serial_ok st'"
      by blast
    from r(3) have "NUL \<notin> set (pendiente st) \<longrightarrow> c_str buffer = pendiente st"
      by (simp add: c_str_sin_NUL)
    with r show "\<exists>buffer st'. leerLineaSerial (Some c) 256 st = (True, Some buffer, st') \<and>
               length buffer = 256 \<and> c_str buffer = c_str (pendiente st) \<and>
               (NUL \<notin> set (pendiente st) \<longrightarrow> c_str buffer = pendiente st) \<and>
               pendiente st' = [] \<and> serial_ok st'"
      by (intro exI[of _ buffer] exI[of _ st']) simp
  qed
  have 4: "c \<noteq> LF \<and> c \<noteq> CR \<and> length (pendiente st) < 255 \<longrightarrow>
            (\<exists>st'. leerLineaSerial (Some c) 256 st = (False, None, st') \<and>
               pendiente st' = pendiente st @ [c] \<and> serial_ok st')"
    using leerLineaSerial_agrega[OF assms] by blast
  have 5: "c \<noteq> LF \<and> c \<noteq> CR \<and> \<not> length (pendiente st) < 255 \<longrightarrow>
            leerLineaSerial (Some c) 256 st = (False, None, st)"
    using leerLineaSerial_lleno[OF assms] by blast
  have 6: "length (pendiente st) \<le> 255"
    using pendiente_length[OF assms] assms by (simp add: serial_ok_def)
  note 7 = serial_inicial_ok[THEN conjunct1] and 8 = serial_inicial_ok[THEN conjunct2]
  note 9 = lineasRecibidas_cota[OF 7, of rs, THEN conjunct1]
  from 1 2 3 4 5 6 7 8 9 show ?thesis by (intro conjI)
qed

theorem line_framer_steps_witness:
  "serial_ok serial_inicial \<and> pendiente serial_inicial = [] \<and>
   leerLineaSerial (Some LF) 256 serial_inicial = (False, None, serial_inicial) \<and>
   serial_ok serial_con_a \<and> pendiente serial_con_a \<noteq> [] \<and>
   (\<exists>buffer st'. leerLineaSerial (Some LF) 256 serial_con_a = (True, Some buffer, st') \<and>
      length buffer = 256 \<and> c_str buffer = c_str (pendiente serial_con_a) \<and>
      (NUL \<notin> set (pendiente serial_con_a) \<longrightarrow> c_str buffer = pendiente serial_con_a) \<and>
      pendiente st' = [] \<and> serial_ok st') \<and>
   CHR ''b'' \<noteq> LF \<and> CHR ''b'' \<noteq> CR \<and> length (pendiente serial_con_a) < 255 \<and>
   (\<exists>st'. leerLineaSerial (Some (CHR ''b'')) 256 serial_con_a = (False, None, st') \<and>
      pendiente st' = pendiente serial_con_a @ [CHR ''b''] \<and> serial_ok st') \<and>
   serial_ok serial_lleno \<and> \<not> length (pendiente serial_lleno) < 255 \<and>
   leerLineaSerial (Some (CHR ''b'')) 256 serial_lleno = (False, None, serial_lleno)"
proof -
  have o0: "serial_ok serial_inicial" and p0: "pendiente serial_inicial = []"
    by (simp_all add: serial_ok_def serial_inicial_def pendiente_def)
  have oa: "serial_ok serial_con_a" and pa: "pendiente serial_con_a \<noteq> []"
    and la: "length (pendiente serial_con_a) < 255"
    by (simp_all add: serial_ok_def serial_con_a_def pendiente_def)
  have ol: "serial_ok serial_lleno" and ll: "\<not> length (pendiente serial_lleno) < 255"
    by (simp_all add: serial_ok_def serial_lleno_def pendiente_def)
  have b: "CHR ''b'' \<noteq> LF" "CHR ''b'' \<noteq> CR" by (simp_all add: LF_def CR_def)
  have t: "LF = LF \<or> LF = CR" by simp
  note w0 = line_framer_steps[OF o0, of LF, THEN conjunct2, THEN conjunct1, THEN mp, OF conjI[OF t p0]]
  note wa = line_framer_steps[OF oa, of LF, THEN conjunct2, THEN conjunct2, THEN conjunct1, THEN mp,
      OF conjI[OF t pa]]
  note wb = line_framer_steps[OF oa, of "CHR ''b''", THEN conjunct2, THEN conjunct2, THEN conjunct2,
      THEN conjunct1, THEN mp, OF conjI[OF b(1) conjI[OF b(2) la]]]
  note wl = line_framer_steps[OF ol, of "CHR ''b''", THEN conjunct2, THEN conjunct2, THEN conjunct2,
      THEN conjunct2, THEN conjunct1, THEN mp, OF conjI[OF b(1) conjI[OF b(2) ll]]]
  from o0 p0 w0 oa pa wa b la wb ol ll wl show ?thesis by (intro conjI)
qed

text \<open>
  Claim C6, as stated, fails: after the bytes \<^verbatim>\<open>a\<close>, NUL, \<^verbatim>\<open>b\<close> no line has been emitted and
  these three bytes are pending; the terminator then emits the line \<^verbatim>\<open>a\<close>, not the three
  pending bytes.
\<close>

theorem line_framer_NUL_counterexample:
  "fst (lineasRecibidas flujo_con_NUL serial_inicial) = [] \<and>
   pendiente (snd (lineasRecibidas flujo_con_NUL serial_inicial)) = [CHR ''a'', NUL, CHR ''b''] \<and>
   fst (lineasRecibidas (flujo_con_NUL @ [Some LF]) serial_inicial) = [''a''] \<and>
   ''a'' \<noteq> [CHR ''a'', NUL, CHR ''b'']"
  by code_simp

end
